theory Spec2Isabelle
  imports Complex_Main
begin

section \<open>Python values and exceptions\<close>

text \<open>
  The notebooks pass JSON-like Python values around: the event of the cloud function is a
  decoded JSON object, the requests and responses of the service clients are dictionaries.
  A dictionary is an association list read with \<open>map_of\<close>. Numbers are the integers;
  the only non-integral number of the source, the weight \<open>0.5\<close>, is a rational in the
  endpoint configuration below.
\<close>

datatype json =
    JNull
  | JBool bool
  | JNum int
  | JStr string
  | JArr "json list"
  | JObj "(string \<times> json) list"

text \<open>
  The exceptions the source can end with. \<open>ClientError code message\<close> is
  \<open>botocore.exceptions.ClientError\<close>; \<open>Exception msg\<close> is the plain
  \<open>Exception\<close> the source raises itself; \<open>NameError v\<close> is the use of a
  variable that was never assigned (for a local, \<open>UnboundLocalError\<close>, a subclass of
  \<open>NameError\<close>); \<open>AttributeError a\<close> is the call of a method the client object
  does not have; \<open>InvalidRegionError r\<close> is what the creation of a client raises
  for a region name that is not well-formed.
\<close>

datatype exn =
    Exception string
  | ClientError string string
  | KeyError string
  | NameError string
  | AttributeError string
  | InvalidRegionError string
  | IndexError
  | TypeError
  | ValueError

text \<open>\<open>s.startswith(p)\<close> on Python strings.\<close>

fun startswith :: "string \<Rightarrow> string \<Rightarrow> bool" where
  "startswith s [] = True"
| "startswith [] (c # p) = False"
| "startswith (d # s) (c # p) = (d = c \<and> startswith s p)"

text \<open>\<open>sub in s\<close> on Python strings: \<open>sub\<close> occurs in \<open>s\<close> as a contiguous run.\<close>

fun str_in :: "string \<Rightarrow> string \<Rightarrow> bool" where
  "str_in sub [] = (sub = [])"
| "str_in sub (c # cs) = (startswith (c # cs) sub \<or> str_in sub cs)"

text \<open>A sequence of answers that begins with \<open>xs\<close> and then stays at \<open>d\<close> for ever.\<close>

definition then_always :: "'a list \<Rightarrow> 'a \<Rightarrow> nat \<Rightarrow> 'a" where
  "then_always xs d k = (if k < length xs then xs ! k else d)"

section \<open>The geospatial notebook: starting a job and waiting for it\<close>

text \<open>
  The geospatial client as the notebook sees it. \<open>gs_start\<close> answers
  \<open>start_earth_observation_job\<close> with the \<open>Arn\<close> of the response;
  \<open>gs_status arn k\<close> is the \<open>Status\<close> field of the response to the \<open>k\<close>-th
  call (counted from 0) of \<open>get_earth_observation_job(Arn=arn)\<close>. The functions of this
  section have no exception handler: a call that fails ends the cell, and the model follows
  the runs in which the calls return.
\<close>

record gs_client =
  gs_start :: "string \<Rightarrow> string \<Rightarrow> json \<Rightarrow> json \<Rightarrow> string"
  gs_status :: "string \<Rightarrow> nat \<Rightarrow> string"

text \<open>
  The loop \<open>while gs_get_eoj_resp["Status"] == "IN_PROGRESS"\<close>: \<open>status\<close> is the
  status held in \<open>gs_get_eoj_resp\<close>, \<open>n\<close> the number of status checks made so far.
  Each turn sleeps, makes the next check and tests again. The result is the number of checks
  made when the loop is left; a loop that is never left has no result.
\<close>

partial_function (option) wait_while_in_progress ::
    "(nat \<Rightarrow> string) \<Rightarrow> nat \<Rightarrow> string \<Rightarrow> nat option" where
  "wait_while_in_progress poll n status =
     (if status = ''IN_PROGRESS''
      then wait_while_in_progress poll (Suc n) (poll n)
      else Some n)"

text \<open>
  \<open>start_earth_observation_job\<close>: start the job, take the \<open>Arn\<close> of the response,
  then wait, beginning from the dictionary \<open>{"Status": "IN_PROGRESS"}\<close>. It returns
  \<open>eoj_arn\<close>; the model returns with it the number of status checks made.
\<close>

definition start_earth_observation_job ::
    "gs_client \<Rightarrow> string \<Rightarrow> string \<Rightarrow> json \<Rightarrow> json \<Rightarrow> (string \<times> nat) option" where
  "start_earth_observation_job gs eoj_name role eoj_input_config eoj_config =
     (let eoj_arn = gs_start gs eoj_name role eoj_input_config eoj_config in
      case wait_while_in_progress (gs_status gs eoj_arn) 0 ''IN_PROGRESS'' of
        None \<Rightarrow> None
      | Some n \<Rightarrow> Some (eoj_arn, n))"

section \<open>The geospatial notebook: exporting the results\<close>

text \<open>
  The requests the programs send, in the order they send them. The arguments are the
  keyword arguments of the client methods: \<open>StartJob Name ExecutionRoleArn InputConfig
  JobConfig\<close>, \<open>ExportJob Arn ExecutionRoleArn OutputConfig\<close>, \<open>GetJob Arn\<close>
  for the geospatial client; \<open>StepSuccess CallbackToken OutputParameters\<close> and
  \<open>StepFailure CallbackToken FailureReason\<close> for the SageMaker client.
\<close>

datatype api_call =
    StartJob json json json json
  | ExportJob json json json
  | GetJob json
  | StepSuccess json json
  | StepFailure json json

text \<open>
  \<open>export_earth_observation_job\<close> makes one call and prints the ARN of the answer; its
  effect is the call, appended to the calls made so far.
\<close>

definition export_earth_observation_job ::
    "api_call list \<Rightarrow> string \<Rightarrow> string \<Rightarrow> string \<Rightarrow> string \<Rightarrow> string \<Rightarrow> api_call list" where
  "export_earth_observation_job calls eoj_arn role bucket prefix task_suffix =
     calls @
     [ExportJob (JStr eoj_arn) (JStr role)
        (JObj [(''S3Data'',
                JObj [(''S3Uri'', JStr (''s3://'' @ bucket @ ''/'' @ prefix @ ''/'' @ task_suffix @ ''/'')),
                      (''KmsKeyId'', JStr [])])])]"

text \<open>
  What the export-monitoring cell reads of a \<open>get_earth_observation_job\<close> response:
  the \<open>Status\<close>, and the \<open>ExportStatus\<close> when the response has one.
\<close>

record eoj_response =
  Status :: string
  ExportStatus :: "string option"

text \<open>
  The globals of the notebook that the cells use: \<open>role\<close>, \<open>bucket\<close>,
  \<open>prefix\<close> and the ARNs of the three jobs started before.
\<close>

record notebook =
  nb_role :: string
  nb_bucket :: string
  nb_prefix :: string
  ts_eoj_arn :: string
  s_eoj_arn :: string
  lc_eoj_arn :: string

definition EOJs :: "notebook \<Rightarrow> string list" where
  "EOJs nb = [ts_eoj_arn nb, s_eoj_arn nb, lc_eoj_arn nb]"

definition eoj_suffixes :: "string list" where
  "eoj_suffixes = [''temp_stat'', ''stacking'', ''land_cover'']"

text \<open>
  The body of \<open>for j, eoj in enumerate(EOJs)\<close> for one job, given the response to its
  status check. The state is \<open>eoj_status\<close> and the calls made so far. \<open>j\<close> is
  an index of \<open>EOJs\<close>, so below the length of \<open>eoj_suffixes\<close> and of
  \<open>eoj_status\<close>.
\<close>

definition check_eoj ::
    "notebook \<Rightarrow> string list \<times> api_call list \<Rightarrow> nat \<Rightarrow> string \<Rightarrow> eoj_response \<Rightarrow>
     exn + string list \<times> api_call list" where
  "check_eoj nb st j eoj resp =
     (if Status resp = ''COMPLETED'' then
        (case ExportStatus resp of
           None \<Rightarrow>
             Inr (fst st,
                  export_earth_observation_job (snd st) eoj (nb_role nb) (nb_bucket nb) (nb_prefix nb)
                    (eoj_suffixes ! j))
         | Some export_status \<Rightarrow>
             if export_status = ''IN_PROGRESS'' then Inr ((fst st)[j := ''Exporting''], snd st)
             else if export_status = ''SUCCEEDED'' then Inr ((fst st)[j := ''Exported''], snd st)
             else Inl (Exception ''Error exporting''))
      else if Status resp = ''IN_PROGRESS'' then Inr ((fst st)[j := ''In progress''], snd st)
      else Inl (Exception ''Error with the EOJ''))"

text \<open>The \<open>for\<close> loop: \<open>poll j\<close> is the response to the status check of job \<open>j\<close>.\<close>

fun check_all ::
    "notebook \<Rightarrow> (nat \<Rightarrow> eoj_response) \<Rightarrow> (nat \<times> string) list \<Rightarrow>
     string list \<times> api_call list \<Rightarrow> exn + string list \<times> api_call list" where
  "check_all nb poll [] st = Inr st"
| "check_all nb poll ((j, eoj) # rest) st =
     (case check_eoj nb st j eoj (poll j) of
        Inl e \<Rightarrow> Inl e
      | Inr st' \<Rightarrow> check_all nb poll rest st')"

definition all_exported :: "string list \<Rightarrow> bool" where
  "all_exported eoj_status = list_all (\<lambda>i. i = ''Exported'') eoj_status"

text \<open>
  The \<open>while not all(...)\<close> loop. \<open>poll r j\<close> is the response to the status
  check of job \<open>j\<close> in turn \<open>r\<close> of the loop. The loop ends by its condition, by
  the \<open>break\<close> after the \<open>for\<close> loop, or by an exception; leaving it normally
  gives the number of turns made and the final state.
\<close>

partial_function (option) export_loop ::
    "notebook \<Rightarrow> (nat \<Rightarrow> nat \<Rightarrow> eoj_response) \<Rightarrow> nat \<Rightarrow> string list \<times> api_call list \<Rightarrow>
     (exn + nat \<times> string list \<times> api_call list) option" where
  "export_loop nb poll r st =
     (if all_exported (fst st) then Some (Inr (r, st))
      else
        (case check_all nb (poll r) (enumerate 0 (EOJs nb)) st of
           Inl e \<Rightarrow> Some (Inl e)
         | Inr st' \<Rightarrow>
             if all_exported (fst st') then Some (Inr (Suc r, st'))
             else export_loop nb poll (Suc r) st'))"

definition export_monitor ::
    "notebook \<Rightarrow> (nat \<Rightarrow> nat \<Rightarrow> eoj_response) \<Rightarrow>
     (exn + nat \<times> string list \<times> api_call list) option" where
  "export_monitor nb poll = export_loop nb poll 0 (replicate (length (EOJs nb)) [], [])"

text \<open>
  The responses on which the body raises: a \<open>Status\<close> that is neither
  \<open>COMPLETED\<close> nor \<open>IN_PROGRESS\<close>, or, for a \<open>COMPLETED\<close> job, an
  \<open>ExportStatus\<close> that is neither \<open>IN_PROGRESS\<close> nor \<open>SUCCEEDED\<close>. And the
  response that makes the body record \<open>Exported\<close>.
\<close>

definition unknown_response :: "eoj_response \<Rightarrow> bool" where
  "unknown_response resp =
     (if Status resp = ''COMPLETED''
      then (case ExportStatus resp of
              None \<Rightarrow> False
            | Some e \<Rightarrow> e \<noteq> ''IN_PROGRESS'' \<and> e \<noteq> ''SUCCEEDED'')
      else Status resp \<noteq> ''IN_PROGRESS'')"

definition export_succeeded :: "eoj_response \<Rightarrow> bool" where
  "export_succeeded resp =
     (Status resp = ''COMPLETED'' \<and> ExportStatus resp = Some ''SUCCEEDED'')"

text \<open>
  The invariant of the loop: the list of statuses keeps its three entries, and an entry is
  \<open>Exported\<close> only after a turn in which the job's export was polled as succeeded.
\<close>

definition recorded :: "(nat \<Rightarrow> nat \<Rightarrow> eoj_response) \<Rightarrow> nat \<Rightarrow> string list \<Rightarrow> bool" where
  "recorded poll r eoj_status \<longleftrightarrow>
     length eoj_status = 3 \<and>
     (\<forall>j<3. eoj_status ! j = ''Exported'' \<longrightarrow> (\<exists>r'<r. export_succeeded (poll r' j)))"

section \<open>The geospatial notebook: plotting\<close>

text \<open>
  An element of an array: \<open>src.read\<close> returns the data type of the file, integers
  (all finite) or floats, and a float is a finite number, an infinity or a NaN. A NaN
  compares false with every number, in \<open>x > 1\<close> as in \<open>x \<le> 1\<close>.
\<close>

datatype fp = Finite rat | PosInf | NegInf | NaN

fun greater_than_one :: "fp \<Rightarrow> bool" where
  "greater_than_one (Finite x) = (x > 1)"
| "greater_than_one PosInf = True"
| "greater_than_one NegInf = False"
| "greater_than_one NaN = False"

fun at_most_one :: "fp \<Rightarrow> bool" where
  "at_most_one (Finite x) = (x \<le> 1)"
| "at_most_one PosInf = False"
| "at_most_one NegInf = True"
| "at_most_one NaN = False"

text \<open>
  An array, as the list of its elements (the operations on it are element-wise and keep its
  shape). \<open>arr / 10000\<close> divides every element: a finite one gives the exact quotient
  rounded to a float, where the rounding \<open>fl\<close> is a parameter, so that nothing below
  depends on how it rounds; an infinity and a NaN stay what they are.
  \<open>arr[arr > 1] = 1\<close> replaces the elements that compare greater than 1.
\<close>

type_synonym ndarray = "fp list"

fun divide_by_10000 :: "(rat \<Rightarrow> rat) \<Rightarrow> fp \<Rightarrow> fp" where
  "divide_by_10000 fl (Finite x) = Finite (fl (x / 10000))"
| "divide_by_10000 fl PosInf = PosInf"
| "divide_by_10000 fl NegInf = NegInf"
| "divide_by_10000 fl NaN = NaN"

definition rescale :: "(rat \<Rightarrow> rat) \<Rightarrow> ndarray \<Rightarrow> ndarray" where
  "rescale fl arr = map (divide_by_10000 fl) arr"

definition clamp :: "ndarray \<Rightarrow> ndarray" where
  "clamp arr = map (\<lambda>x. if greater_than_one x then Finite 1 else x) arr"

text \<open>\<open>eoj_arn.split("/", 1)[1]\<close>: what follows the first slash.\<close>

fun after_slash :: "string \<Rightarrow> exn + string" where
  "after_slash [] = Inl IndexError"
| "after_slash (c # cs) = (if c = CHR ''/'' then Inr cs else after_slash cs)"

text \<open>
  The loop over the listed objects: \<open>i\<close> counts the images shown, the result is the
  arrays passed to \<open>show\<close>, in order. An object is its key and the array that
  \<open>src.read\<close> returns for it.
\<close>

fun show_images ::
    "(rat \<Rightarrow> rat) \<Rightarrow> string \<Rightarrow> int \<Rightarrow> int \<Rightarrow> (string \<times> ndarray) list \<Rightarrow> ndarray list" where
  "show_images fl band number i [] = []"
| "show_images fl band number i ((key, arr) # rest) =
     (if str_in (band @ ''.tif'') key then
        (let i' = i + 1;
             shown = (if band \<noteq> ''visual'' then clamp (rescale fl arr) else arr)
         in shown # (if i' = number then [] else show_images fl band number i' rest))
      else show_images fl band number i rest)"

text \<open>
  \<open>visualize_cogt\<close>: \<open>resp\<close> is the response to the status check, \<open>objects\<close>
  the content of the bucket in listing order, of which the filter keeps the keys that begin
  with the prefix of the job's consolidated output.
\<close>

definition visualize_cogt ::
    "(rat \<Rightarrow> rat) \<Rightarrow> notebook \<Rightarrow> eoj_response \<Rightarrow> (string \<times> ndarray) list \<Rightarrow>
     string \<Rightarrow> string \<Rightarrow> string \<Rightarrow> int \<Rightarrow> exn + ndarray list" where
  "visualize_cogt fl nb resp objects task eoj_arn band number =
     (case ExportStatus resp of
        None \<Rightarrow> Inl (KeyError ''ExportStatus'')
      | Some export_status \<Rightarrow>
          if export_status = ''SUCCEEDED'' then
            (case after_slash eoj_arn of
               Inl e \<Rightarrow> Inl e
             | Inr job_id \<Rightarrow>
                 Inr (show_images fl band number 0
                        (filter
                           (\<lambda>(key, arr). startswith key
                              (nb_prefix nb @ ''/'' @ task @ ''/'' @ job_id @ ''/output/consolidated/''))
                           objects)))
          else Inr [])"

section \<open>The cloud function \<open>lambda_handler\<close>\<close>

text \<open>
  \<open>x[key]\<close> with a string key: a dictionary gives the value or a \<open>KeyError\<close>, any
  other value a \<open>TypeError\<close>. \<open>key in event\<close> on the event dictionary.
\<close>

definition subscript :: "json \<Rightarrow> string \<Rightarrow> exn + json" where
  "subscript x key =
     (case x of
        JObj kvs \<Rightarrow> (case map_of kvs key of None \<Rightarrow> Inl (KeyError key) | Some v \<Rightarrow> Inr v)
      | _ \<Rightarrow> Inl TypeError)"

definition contains_key :: "(string \<times> json) list \<Rightarrow> string \<Rightarrow> bool" where
  "contains_key event key = (map_of event key \<noteq> None)"

text \<open>\<open>for record in x\<close>: what iterating over a value yields.\<close>

definition iterate :: "json \<Rightarrow> exn + json list" where
  "iterate x =
     (case x of
        JArr xs \<Rightarrow> Inr xs
      | JObj kvs \<Rightarrow> Inr (map (\<lambda>kv. JStr (fst kv)) kvs)
      | JStr s \<Rightarrow> Inr (map (\<lambda>c. JStr [c]) s)
      | _ \<Rightarrow> Inl TypeError)"

text \<open>
  What the handler calls and does not define: the two parsers, \<open>str\<close> of a value that
  is not a string, the creation of the two clients for a region, which sends nothing but
  raises for a region it does not accept, and the operations of the two clients, each given
  the region of its client and answering with a response or raising.
  \<open>create_client\<close> is \<open>session.create_client\<close> for the geospatial service,
  \<open>boto3_client\<close> is \<open>boto3.client("sagemaker", region_name=region)\<close>, and
  \<open>api_get region k arn\<close> answers the status check made for record number \<open>k\<close>.
\<close>

record services =
  parse_literal :: "string \<Rightarrow> exn + json"
  parse_json :: "string \<Rightarrow> exn + json"
  repr :: "json \<Rightarrow> string"
  create_client :: "json \<Rightarrow> exn + unit"
  boto3_client :: "json \<Rightarrow> exn + unit"
  api_start :: "json \<Rightarrow> json \<Rightarrow> json \<Rightarrow> json \<Rightarrow> json \<Rightarrow> exn + json"
  api_export :: "json \<Rightarrow> json \<Rightarrow> json \<Rightarrow> json \<Rightarrow> exn + json"
  api_get :: "json \<Rightarrow> nat \<Rightarrow> json \<Rightarrow> exn + json"
  api_step_success :: "json \<Rightarrow> json \<Rightarrow> json \<Rightarrow> exn + json"
  api_step_failure :: "json \<Rightarrow> json \<Rightarrow> json \<Rightarrow> exn + json"

definition literal_eval :: "services \<Rightarrow> json \<Rightarrow> exn + json" where
  "literal_eval sv v = (case v of JStr s \<Rightarrow> parse_literal sv s | _ \<Rightarrow> Inl ValueError)"

definition json_loads :: "services \<Rightarrow> json \<Rightarrow> exn + json" where
  "json_loads sv v = (case v of JStr s \<Rightarrow> parse_json sv s | _ \<Rightarrow> Inl TypeError)"

definition py_str :: "services \<Rightarrow> json \<Rightarrow> string" where
  "py_str sv v = (case v of JStr s \<Rightarrow> s | _ \<Rightarrow> repr sv v)"

definition region_of :: "(string \<times> json) list \<Rightarrow> json" where
  "region_of event =
     (if contains_key event ''region'' then the (map_of event ''region'')
      else JStr ''us-west-2'')"

text \<open>
  A request through the SageMaker client, as each of the three callback branches makes it:
  the client is created, the method is looked up by its name, the last argument is
  evaluated, and the request is sent. The two operations the handler means to call send
  the request; any other name is not an attribute of the client.
\<close>

definition sagemaker_call ::
    "services \<Rightarrow> json \<Rightarrow> string \<Rightarrow> json \<Rightarrow> exn + json \<Rightarrow> api_call list \<times> (exn + json)" where
  "sagemaker_call sv region name token arg =
     (case boto3_client sv region of
        Inl e \<Rightarrow> ([], Inl e)
      | Inr client \<Rightarrow>
          if name = ''send_pipeline_execution_step_success'' then
            (case arg of
               Inl e \<Rightarrow> ([], Inl e)
             | Inr a \<Rightarrow> ([StepSuccess token a], api_step_success sv region token a))
          else if name = ''send_pipeline_execution_step_failure'' then
            (case arg of
               Inl e \<Rightarrow> ([], Inl e)
             | Inr a \<Rightarrow> ([StepFailure token a], api_step_failure sv region token a))
          else ([], Inl (AttributeError name)))"

text \<open>
  The branch \<open>if "eoj_name" in event\<close>. \<open>input_config_of\<close> is the
  \<open>if\<close>/\<open>elif\<close> that assigns \<open>input_config\<close>; it has no \<open>else\<close>, and
  \<open>None\<close> stands for the variable left unassigned. The keyword arguments of the call are
  evaluated from left to right, \<open>event["role"]\<close> before \<open>input_config\<close>. A branch
  gives the calls it made and either the exception that ended it or the variable
  \<open>response\<close>.
\<close>

definition input_config_of :: "services \<Rightarrow> json \<Rightarrow> exn + json option" where
  "input_config_of sv eoj_input_config =
     (if str_in ''RasterDataCollectionQuery'' (py_str sv eoj_input_config) then
        (case literal_eval sv eoj_input_config of
           Inl e \<Rightarrow> Inl e
         | Inr v \<Rightarrow> Inr (Some v))
      else if str_in ''arn'' (py_str sv eoj_input_config) then
        Inr (Some (JObj [(''PreviousEarthObservationJobArn'', eoj_input_config)]))
      else Inr None)"

definition create_eoj ::
    "services \<Rightarrow> (string \<times> json) list \<Rightarrow> api_call list \<times> (exn + json option)" where
  "create_eoj sv event =
     (case subscript (JObj event) ''eoj_input_config'' of Inl e \<Rightarrow> ([], Inl e) | Inr cfg \<Rightarrow>
      (case input_config_of sv cfg of Inl e \<Rightarrow> ([], Inl e) | Inr input_config \<Rightarrow>
      (case subscript (JObj event) ''eoj_name'' of Inl e \<Rightarrow> ([], Inl e) | Inr eoj_name \<Rightarrow>
      (case subscript (JObj event) ''role'' of Inl e \<Rightarrow> ([], Inl e) | Inr role \<Rightarrow>
      (case input_config of None \<Rightarrow> ([], Inl (NameError ''input_config'')) | Some ic \<Rightarrow>
      (case subscript (JObj event) ''eoj_config'' of Inl e \<Rightarrow> ([], Inl e) | Inr eoj_config \<Rightarrow>
      (case literal_eval sv eoj_config of Inl e \<Rightarrow> ([], Inl e) | Inr job_config \<Rightarrow>
      (case api_start sv (region_of event) eoj_name role ic job_config of
        Inl e \<Rightarrow> ([StartJob eoj_name role ic job_config], Inl e)
      | Inr response \<Rightarrow>
      (case subscript response ''Arn'' of
        Inl e \<Rightarrow> ([StartJob eoj_name role ic job_config], Inl e)
      | Inr arn \<Rightarrow> ([StartJob eoj_name role ic job_config], Inr (Some response)))))))))))"

text \<open>The branch \<open>elif "eoj_output_config" in event\<close>.\<close>

definition export_eoj ::
    "services \<Rightarrow> (string \<times> json) list \<Rightarrow> api_call list \<times> (exn + json option)" where
  "export_eoj sv event =
     (case subscript (JObj event) ''eoj_arn'' of Inl e \<Rightarrow> ([], Inl e) | Inr eoj_arn \<Rightarrow>
      (case subscript (JObj event) ''role'' of Inl e \<Rightarrow> ([], Inl e) | Inr role \<Rightarrow>
      (case subscript (JObj event) ''eoj_output_config'' of Inl e \<Rightarrow> ([], Inl e) | Inr cfg \<Rightarrow>
      (case literal_eval sv cfg of Inl e \<Rightarrow> ([], Inl e) | Inr output_config \<Rightarrow>
      (case api_export sv (region_of event) eoj_arn role output_config of
        Inl e \<Rightarrow> ([ExportJob eoj_arn role output_config], Inl e)
      | Inr response \<Rightarrow>
      (case subscript response ''Arn'' of
        Inl e \<Rightarrow> ([ExportJob eoj_arn role output_config], Inl e)
      | Inr arn \<Rightarrow> ([ExportJob eoj_arn role output_config], Inr (Some response))))))))"

text \<open>
  The branch \<open>elif "Records" in event\<close>: the body of the loop for record number
  \<open>k\<close>, giving the calls made and the \<open>response\<close> of the status check, and the loop.
  The method names are those of the source. \<open>after_status_check\<close> puts the status
  check before what the SageMaker client sent, and keeps \<open>response\<close> when the client
  did not raise.
\<close>

definition after_status_check ::
    "json \<Rightarrow> json \<Rightarrow> api_call list \<times> (exn + json) \<Rightarrow> api_call list \<times> (exn + json)" where
  "after_status_check eoj_arn response sent =
     (GetJob eoj_arn # fst sent,
      case snd sent of Inl e \<Rightarrow> Inl e | Inr r \<Rightarrow> Inr response)"

definition check_record ::
    "services \<Rightarrow> json \<Rightarrow> nat \<Rightarrow> json \<Rightarrow> api_call list \<times> (exn + json)" where
  "check_record sv region k record =
     (case subscript record ''body'' of Inl e \<Rightarrow> ([], Inl e) | Inr body \<Rightarrow>
      (case json_loads sv body of Inl e \<Rightarrow> ([], Inl e) | Inr payload \<Rightarrow>
      (case subscript payload ''token'' of Inl e \<Rightarrow> ([], Inl e) | Inr token \<Rightarrow>
      (case subscript payload ''arguments'' of Inl e \<Rightarrow> ([], Inl e) | Inr arguments \<Rightarrow>
      (case subscript arguments ''eoj_arn'' of Inl e \<Rightarrow> ([], Inl e) | Inr eoj_arn \<Rightarrow>
      (case api_get sv region k eoj_arn of Inl e \<Rightarrow> ([GetJob eoj_arn], Inl e) | Inr response \<Rightarrow>
      (case subscript response ''Status'' of Inl e \<Rightarrow> ([GetJob eoj_arn], Inl e) | Inr status \<Rightarrow>
      if status = JStr ''COMPLETED'' then
        after_status_check eoj_arn response
          (sagemaker_call sv region ''send_pipeline_execution_step_success'' token
             (Inr (JArr [JObj [(''Name'', JStr ''eoj_status''), (''Value'', status)]])))
      else if status = JStr ''SUCCEEDED'' then
        after_status_check eoj_arn response
          (sagemaker_call sv region ''send_pipeline_execution_step_sucess'' token
             (Inr (JArr [JObj [(''Name'', JStr ''export_eoj_status''), (''Value'', status)]])))
      else if status = JStr ''FAILED'' then
        after_status_check eoj_arn response
          (sagemaker_call sv region ''send_pipeline_execution_step_failure'' token
             (subscript response ''ErrorDetails''))
      else ([GetJob eoj_arn], Inl (Exception ''EOJ or export still running...'')))))))))"

fun check_records ::
    "services \<Rightarrow> json \<Rightarrow> nat \<Rightarrow> json list \<Rightarrow> json option \<Rightarrow> api_call list \<times> (exn + json option)" where
  "check_records sv region k [] response = ([], Inr response)"
| "check_records sv region k (record # rest) response =
     (case check_record sv region k record of
        (calls, Inl e) \<Rightarrow> (calls, Inl e)
      | (calls, Inr response') \<Rightarrow>
          (case check_records sv region (Suc k) rest (Some response') of
             (calls', outcome) \<Rightarrow> (calls @ calls', outcome)))"

definition check_eojs ::
    "services \<Rightarrow> (string \<times> json) list \<Rightarrow> api_call list \<times> (exn + json option)" where
  "check_eojs sv event =
     (case subscript (JObj event) ''Records'' of Inl e \<Rightarrow> ([], Inl e) | Inr records \<Rightarrow>
      (case iterate records of Inl e \<Rightarrow> ([], Inl e) | Inr rs \<Rightarrow>
      check_records sv (region_of event) 0 rs None))"

text \<open>
  The handler: the \<open>try\<close> block, which creates the geospatial client for the region
  of the event and then takes one of its three branches; the \<open>except\<close> clause,
  which turns a \<open>ClientError\<close> into an \<open>Exception\<close> and lets every other exception
  pass; and the end, where a \<open>response\<close> never assigned, or \<open>None\<close>, becomes
  \<open>{"Arn": ""}\<close>. The result is the calls made and the value returned or the exception
  raised.
\<close>

definition except_client_error :: "exn \<Rightarrow> exn" where
  "except_client_error e =
     (case e of
        ClientError code message \<Rightarrow>
          Exception (''EOJ or export call failed: '' @ code @ '', '' @ message)
      | _ \<Rightarrow> e)"

definition return_arn :: "json option \<Rightarrow> exn + json" where
  "return_arn response =
     (case response of
        None \<Rightarrow> Inr (JObj [(''statusCode'', JNum 200), (''eoj_arn'', JStr [])])
      | Some r \<Rightarrow>
          if r = JNull then Inr (JObj [(''statusCode'', JNum 200), (''eoj_arn'', JStr [])])
          else (case subscript r ''Arn'' of
                  Inl e \<Rightarrow> Inl e
                | Inr arn \<Rightarrow> Inr (JObj [(''statusCode'', JNum 200), (''eoj_arn'', arn)])))"

definition lambda_handler ::
    "services \<Rightarrow> (string \<times> json) list \<Rightarrow> api_call list \<times> (exn + json)" where
  "lambda_handler sv event =
     (case (case create_client sv (region_of event) of
              Inl e \<Rightarrow> ([], Inl e)
            | Inr gsClient \<Rightarrow>
                if contains_key event ''eoj_name'' then create_eoj sv event
                else if contains_key event ''eoj_output_config'' then export_eoj sv event
                else if contains_key event ''Records'' then check_eojs sv event
                else ([], Inr None)) of
        (calls, Inl e) \<Rightarrow> (calls, Inl (except_client_error e))
      | (calls, Inr response) \<Rightarrow> (calls, return_arn response))"



text \<open>
  Services for running the handler on examples. The parsers know the texts of the
  examples; a client is created for a region name of lower-case letters, digits and
  hyphens and refused for any other; every job has the status \<open>status\<close>; and every
  request is answered.
\<close>

definition example_body :: string where
  \<open>example_body = ''{"token": "t1", "arguments": {"eoj_arn": "arn/1"}}''\<close>

definition example_job_arn :: string where
  "example_job_arn =
     ''arn:aws:sagemaker-geospatial:us-west-2:111122223333:earth-observation-job/abcdefghijkl''"


definition example_callback_body :: string where
  \<open>example_callback_body =
     ''{"token": "abcdefghijklmnopqrstuvwxyz012345", "arguments": {"eoj_arn": "arn:aws:sagemaker-geospatial:us-west-2:111122223333:earth-observation-job/abcdefghijkl"}}''\<close>

definition example_job_config :: string where
  \<open>example_job_config = ''{"LandCoverSegmentationConfig": {}}''\<close>

definition example_output_config :: string where
  \<open>example_output_config =
     ''{"S3Data": {"S3Uri": "s3://bucket/prefix/land_cover/", "KmsKeyId": ""}}''\<close>

definition example_client :: "json \<Rightarrow> exn + unit" where
  "example_client region =
     (case region of
        JStr s \<Rightarrow>
          if s \<noteq> [] \<and> list_all (\<lambda>c. c \<in> set ''abcdefghijklmnopqrstuvwxyz0123456789-'') s
          then Inr ()
          else Inl (InvalidRegionError s)
      | _ \<Rightarrow> Inl TypeError)"

definition example_services :: "string \<Rightarrow> services" where
  "example_services status =
     \<lparr> parse_literal =
         (\<lambda>s. if s = ''{}'' then Inr (JObj [])
              else if s = example_job_config
              then Inr (JObj [(''LandCoverSegmentationConfig'', JObj [])])
              else if s = example_output_config
              then Inr (JObj [(''S3Data'',
                               JObj [(''S3Uri'', JStr ''s3://bucket/prefix/land_cover/''),
                                     (''KmsKeyId'', JStr [])])])
              else Inl ValueError),
       parse_json =
         (\<lambda>s. if s = example_body
              then Inr (JObj [(''token'', JStr ''t1''),
                              (''arguments'', JObj [(''eoj_arn'', JStr ''arn/1'')])])
              else if s = example_callback_body
              then Inr (JObj [(''token'', JStr ''abcdefghijklmnopqrstuvwxyz012345''),
                              (''arguments'', JObj [(''eoj_arn'', JStr example_job_arn)])])
              else Inl ValueError),
       repr = (\<lambda>v. ''None''),
       create_client = example_client,
       boto3_client = example_client,
       api_start = (\<lambda>region eoj_name role input_config job_config.
                      Inr (JObj [(''Arn'', JStr example_job_arn)])),
       api_export = (\<lambda>region arn role output_config. Inr (JObj [(''Arn'', arn)])),
       api_get = (\<lambda>region k arn. Inr (JObj [(''Arn'', arn), (''Status'', JStr status),
                                               (''ErrorDetails'', JStr ''details'')])),
       api_step_success = (\<lambda>region token outputs. Inr (JObj [])),
       api_step_failure = (\<lambda>region token reason. Inr (JObj [])) \<rparr>"

section \<open>The shadow-variant notebook\<close>

subsection \<open>Waiting for the endpoint\<close>

text \<open>
  \<open>wait_for_endpoint_in_service\<close> is \<open>while True\<close> around one
  \<open>describe_endpoint\<close> call; it breaks when the \<open>EndpointStatus\<close> is in
  \<open>["InService", "Failed"]\<close>, and sleeps and asks again otherwise.
  \<open>describe k\<close> is the status the \<open>k\<close>-th call returns; the result is the number of
  calls made.
\<close>

partial_function (option) wait_for_endpoint_from ::
    "(nat \<Rightarrow> string) \<Rightarrow> nat \<Rightarrow> nat option" where
  "wait_for_endpoint_from describe n =
     (let status = describe n in
      if status \<in> set [''InService'', ''Failed'']
      then Some (Suc n)
      else wait_for_endpoint_from describe (Suc n))"

definition wait_for_endpoint_in_service :: "(nat \<Rightarrow> string) \<Rightarrow> nat option" where
  "wait_for_endpoint_in_service describe = wait_for_endpoint_from describe 0"

text \<open>
  The statuses an endpoint has while it is being created or updated, as the claim about the
  wait speaks of them (a definition of the claim's words, not of the source, which names
  only the two statuses it stops at).
\<close>

definition creating_or_updating_status :: "string \<Rightarrow> bool" where
  "creating_or_updating_status s =
     (s \<in> set [''Creating'', ''Updating'', ''SystemUpdating'', ''RollingBack''])"

subsection \<open>The endpoint configuration\<close>

record variant =
  VariantName :: string
  ModelName :: string
  InstanceType :: string
  InitialInstanceCount :: int
  InitialVariantWeight :: rat

record endpoint_config_request =
  EndpointConfigName :: string
  ProductionVariants :: "variant list"
  ShadowProductionVariants :: "variant list"

text \<open>
  The names are f-strings ending in the time of their evaluation, formatted
  \<open>%Y-%m-%d-%H-%M-%S\<close>; the formatted time is a parameter.
\<close>

definition model_name :: "string \<Rightarrow> string" where
  "model_name now = ''DEMO-xgb-churn-pred-'' @ now"

definition model_name2 :: "string \<Rightarrow> string" where
  "model_name2 now = ''DEMO-xgb-churn-pred2-'' @ now"

definition ep_config_name :: "string \<Rightarrow> string" where
  "ep_config_name now = ''Shadow-EpConfig-'' @ now"

definition production_variant_name :: string where
  "production_variant_name = ''production''"

definition shadow_variant_name :: string where
  "shadow_variant_name = ''shadow''"

text \<open>
  The argument of \<open>sm.create_endpoint_config\<close>; \<open>t1\<close>, \<open>t2\<close> and \<open>t3\<close> are the
  times at which the two model names and the configuration name were formed.
\<close>

definition create_endpoint_config_call :: "string \<Rightarrow> string \<Rightarrow> string \<Rightarrow> endpoint_config_request" where
  "create_endpoint_config_call t1 t2 t3 =
     \<lparr> EndpointConfigName = ep_config_name t3,
       ProductionVariants =
         [\<lparr> VariantName = production_variant_name,
            ModelName = model_name t1,
            InstanceType = ''ml.m5.xlarge'',
            InitialInstanceCount = 2,
            InitialVariantWeight = 1 \<rparr>],
       ShadowProductionVariants =
         [\<lparr> VariantName = shadow_variant_name,
            ModelName = model_name2 t2,
            InstanceType = ''ml.m5.xlarge'',
            InitialInstanceCount = 1,
            InitialVariantWeight = 1 / 2 \<rparr>] \<rparr>"

section \<open>Theorems\<close>

subsection \<open>The wait of \<open>start_earth_observation_job\<close>\<close>

lemma wait_while_in_progress_stop:
  "status \<noteq> ''IN_PROGRESS'' \<Longrightarrow> wait_while_in_progress poll n status = Some n"
  by (subst wait_while_in_progress.simps) simp

lemma wait_while_in_progress_go:
  "wait_while_in_progress poll n ''IN_PROGRESS'' = wait_while_in_progress poll (Suc n) (poll n)"
  by (subst wait_while_in_progress.simps) simp

lemma wait_while_in_progress_reaches:
  assumes "\<forall>i<k. poll (n + i) = ''IN_PROGRESS''" and "poll (n + k) \<noteq> ''IN_PROGRESS''"
  shows "wait_while_in_progress poll n ''IN_PROGRESS'' = Some (Suc (n + k))"
  using assms
proof (induction k arbitrary: n)
  case 0
  then show ?case
    by (simp add: wait_while_in_progress_go wait_while_in_progress_stop)
next
  case (Suc k)
  have first: "poll n = ''IN_PROGRESS''"
    using Suc.prems(1)[rule_format, of 0] by simp
  have "\<forall>i<k. poll (Suc n + i) = ''IN_PROGRESS''"
  proof (intro allI impI)
    fix i assume "i < k"
    then show "poll (Suc n + i) = ''IN_PROGRESS''"
      using Suc.prems(1)[rule_format, of "Suc i"] by simp
  qed
  moreover have "poll (Suc n + k) \<noteq> ''IN_PROGRESS''"
    using Suc.prems(2) by simp
  ultimately have "wait_while_in_progress poll (Suc n) ''IN_PROGRESS'' = Some (Suc (Suc n + k))"
    by (rule Suc.IH)
  then show ?case
    using first by (simp add: wait_while_in_progress_go)
qed

text \<open>
  What a returning wait has seen: it was entered with a status other than
  \<open>IN_PROGRESS\<close> and made no check, or its last check, number \<open>r - 1\<close>, was the
  first from \<open>n\<close> on to return a status other than \<open>IN_PROGRESS\<close>.
\<close>

lemma wait_while_in_progress_returned:
  assumes "wait_while_in_progress poll n status = Some r"
  shows "(status \<noteq> ''IN_PROGRESS'' \<and> r = n) \<or>
         (status = ''IN_PROGRESS'' \<and> n < r \<and> poll (r - 1) \<noteq> ''IN_PROGRESS'' \<and>
          (\<forall>i. n \<le> i \<and> i < r - 1 \<longrightarrow> poll i = ''IN_PROGRESS''))"
proof (rule wait_while_in_progress.raw_induct[where P = "\<lambda>poll n status r.
         (status \<noteq> ''IN_PROGRESS'' \<and> r = n) \<or>
         (status = ''IN_PROGRESS'' \<and> n < r \<and> poll (r - 1) \<noteq> ''IN_PROGRESS'' \<and>
          (\<forall>i. n \<le> i \<and> i < r - 1 \<longrightarrow> poll i = ''IN_PROGRESS''))", OF _ assms])
  fix f :: "(nat \<Rightarrow> string) \<Rightarrow> nat \<Rightarrow> string \<Rightarrow> nat option" and poll n status r
  assume IH: "\<And>p m s y. f p m s = Some y \<Longrightarrow>
         (s \<noteq> ''IN_PROGRESS'' \<and> y = m) \<or>
         (s = ''IN_PROGRESS'' \<and> m < y \<and> p (y - 1) \<noteq> ''IN_PROGRESS'' \<and>
          (\<forall>i. m \<le> i \<and> i < y - 1 \<longrightarrow> p i = ''IN_PROGRESS''))"
    and step: "(if status = ''IN_PROGRESS'' then f poll (Suc n) (poll n) else Some n) = Some r"
  show "(status \<noteq> ''IN_PROGRESS'' \<and> r = n) \<or>
         (status = ''IN_PROGRESS'' \<and> n < r \<and> poll (r - 1) \<noteq> ''IN_PROGRESS'' \<and>
          (\<forall>i. n \<le> i \<and> i < r - 1 \<longrightarrow> poll i = ''IN_PROGRESS''))"
  proof (cases "status = ''IN_PROGRESS''")
    case False
    with step show ?thesis by simp
  next
    case True
    with step have rec: "f poll (Suc n) (poll n) = Some r" by simp
    from IH[OF rec] show ?thesis
    proof
      assume "poll n \<noteq> ''IN_PROGRESS'' \<and> r = Suc n"
      with True show ?thesis by auto
    next
      assume later: "poll n = ''IN_PROGRESS'' \<and> Suc n < r \<and> poll (r - 1) \<noteq> ''IN_PROGRESS'' \<and>
          (\<forall>i. Suc n \<le> i \<and> i < r - 1 \<longrightarrow> poll i = ''IN_PROGRESS'')"
      have "\<forall>i. n \<le> i \<and> i < r - 1 \<longrightarrow> poll i = ''IN_PROGRESS''"
      proof (intro allI impI)
        fix i assume i: "n \<le> i \<and> i < r - 1"
        show "poll i = ''IN_PROGRESS''"
        proof (cases "i = n")
          case True
          with later show ?thesis by simp
        next
          case False
          with i have "Suc n \<le> i \<and> i < r - 1" by simp
          with later show ?thesis by blast
        qed
      qed
      with True later show ?thesis by simp
    qed
  qed
qed

lemma least_first:
  assumes "P (k::nat)"
  obtains m where "P m" and "\<forall>i<m. \<not> P i"
proof -
  have "P (LEAST m. P m)" using assms by (rule LeastI)
  moreover have "\<forall>i<(LEAST m. P m). \<not> P i" using not_less_Least by blast
  ultimately show ?thesis using that by blast
qed

text \<open>
  C3. Whatever statuses the status check returns, \<open>start_earth_observation_job\<close>
  returns exactly when a check returns a status other than \<open>IN_PROGRESS\<close> for the
  first time: it returns after \<open>n\<close> checks only if the last of them, and none before it,
  returned another status, it returns then the ARN of the job it started, whatever the other
  status is, and it never returns when every check returns \<open>IN_PROGRESS\<close>.
\<close>

theorem start_earth_observation_job_returns_at_first_other_status:
  "(start_earth_observation_job gs eoj_name role eoj_input_config eoj_config = Some (arn, n)
      \<longleftrightarrow> arn = gs_start gs eoj_name role eoj_input_config eoj_config \<and> 0 < n \<and>
          gs_status gs arn (n - 1) \<noteq> ''IN_PROGRESS'' \<and>
          (\<forall>i<n - 1. gs_status gs arn i = ''IN_PROGRESS'')) \<and>
   ((\<forall>i. gs_status gs (gs_start gs eoj_name role eoj_input_config eoj_config) i = ''IN_PROGRESS'')
      \<longrightarrow> start_earth_observation_job gs eoj_name role eoj_input_config eoj_config = None)"
proof -
  define a where "a = gs_start gs eoj_name role eoj_input_config eoj_config"
  define poll where "poll = gs_status gs a"
  have unfold: "start_earth_observation_job gs eoj_name role eoj_input_config eoj_config =
      (case wait_while_in_progress poll 0 ''IN_PROGRESS'' of None \<Rightarrow> None | Some n \<Rightarrow> Some (a, n))"
    unfolding start_earth_observation_job_def a_def poll_def Let_def ..
  have only_if: "0 < r \<and> poll (r - 1) \<noteq> ''IN_PROGRESS'' \<and> (\<forall>i<r - 1. poll i = ''IN_PROGRESS'')"
    if "wait_while_in_progress poll 0 ''IN_PROGRESS'' = Some r" for r
    using wait_while_in_progress_returned[OF that] by simp
  have "if": "wait_while_in_progress poll 0 ''IN_PROGRESS'' = Some r"
    if "0 < r" "poll (r - 1) \<noteq> ''IN_PROGRESS''" "\<forall>i<r - 1. poll i = ''IN_PROGRESS''" for r
    using wait_while_in_progress_reaches[of "r - 1" poll 0] that by simp
  have first: "start_earth_observation_job gs eoj_name role eoj_input_config eoj_config = Some (arn, n)
      \<longleftrightarrow> arn = a \<and> 0 < n \<and> poll (n - 1) \<noteq> ''IN_PROGRESS'' \<and> (\<forall>i<n - 1. poll i = ''IN_PROGRESS'')"
  proof
    assume "start_earth_observation_job gs eoj_name role eoj_input_config eoj_config = Some (arn, n)"
    then have "arn = a" and "wait_while_in_progress poll 0 ''IN_PROGRESS'' = Some n"
      by (auto simp: unfold split: option.splits)
    then show "arn = a \<and> 0 < n \<and> poll (n - 1) \<noteq> ''IN_PROGRESS'' \<and> (\<forall>i<n - 1. poll i = ''IN_PROGRESS'')"
      using only_if by blast
  next
    assume "arn = a \<and> 0 < n \<and> poll (n - 1) \<noteq> ''IN_PROGRESS'' \<and> (\<forall>i<n - 1. poll i = ''IN_PROGRESS'')"
    then show "start_earth_observation_job gs eoj_name role eoj_input_config eoj_config = Some (arn, n)"
      using "if"[of n] by (simp add: unfold)
  qed
  have second: "start_earth_observation_job gs eoj_name role eoj_input_config eoj_config = None"
    if "\<forall>i. poll i = ''IN_PROGRESS''"
  proof (cases "wait_while_in_progress poll 0 ''IN_PROGRESS''")
    case None
    then show ?thesis by (simp add: unfold)
  next
    case (Some r)
    from only_if[OF this] that show ?thesis by blast
  qed
  from first second show ?thesis
    unfolding poll_def a_def by blast
qed

theorem start_earth_observation_job_returns_witness:
  "start_earth_observation_job
     \<lparr> gs_start = (\<lambda>eoj_name role input_config config. ''arn:job/1''),
       gs_status = (\<lambda>arn. then_always [''IN_PROGRESS'', ''IN_PROGRESS''] ''FAILED'') \<rparr>
     ''tempstatsjob'' ''role'' JNull JNull = Some (''arn:job/1'', 3) \<and>
   start_earth_observation_job
     \<lparr> gs_start = (\<lambda>eoj_name role input_config config. ''arn:job/1''),
       gs_status = (\<lambda>arn. then_always [] ''IN_PROGRESS'') \<rparr>
     ''tempstatsjob'' ''role'' JNull JNull = None"
proof -
  have lt: "i < 2 \<longleftrightarrow> i = 0 \<or> i = Suc 0" for i :: nat by auto
  show ?thesis
    using start_earth_observation_job_returns_at_first_other_status
        [of "\<lparr> gs_start = (\<lambda>eoj_name role input_config config. ''arn:job/1''),
              gs_status = (\<lambda>arn. then_always [''IN_PROGRESS'', ''IN_PROGRESS''] ''FAILED'') \<rparr>"
            "''tempstatsjob''" "''role''" JNull JNull "''arn:job/1''" 3]
      start_earth_observation_job_returns_at_first_other_status
        [of "\<lparr> gs_start = (\<lambda>eoj_name role input_config config. ''arn:job/1''),
              gs_status = (\<lambda>arn. then_always [] ''IN_PROGRESS'') \<rparr>"
            "''tempstatsjob''" "''role''" JNull JNull "''arn:job/1''" 0]
    by (simp add: then_always_def lt)
qed

subsection \<open>The wait of \<open>wait_for_endpoint_in_service\<close>\<close>

lemma wait_for_endpoint_from_stop:
  "describe n \<in> set [''InService'', ''Failed''] \<Longrightarrow>
     wait_for_endpoint_from describe n = Some (Suc n)"
  by (subst wait_for_endpoint_from.simps) (simp add: Let_def)

lemma wait_for_endpoint_from_go:
  "describe n \<notin> set [''InService'', ''Failed''] \<Longrightarrow>
     wait_for_endpoint_from describe n = wait_for_endpoint_from describe (Suc n)"
  by (subst wait_for_endpoint_from.simps) (simp add: Let_def)

lemma wait_for_endpoint_from_reaches:
  assumes "\<forall>i<k. describe (n + i) \<notin> set [''InService'', ''Failed'']"
    and "describe (n + k) \<in> set [''InService'', ''Failed'']"
  shows "wait_for_endpoint_from describe n = Some (Suc (n + k))"
  using assms
proof (induction k arbitrary: n)
  case 0
  then show ?case
    using wait_for_endpoint_from_stop[of describe n] by simp
next
  case (Suc k)
  have first: "describe n \<notin> set [''InService'', ''Failed'']"
    using Suc.prems(1)[rule_format, of 0] by simp
  have "\<forall>i<k. describe (Suc n + i) \<notin> set [''InService'', ''Failed'']"
  proof (intro allI impI)
    fix i assume "i < k"
    then show "describe (Suc n + i) \<notin> set [''InService'', ''Failed'']"
      using Suc.prems(1)[rule_format, of "Suc i"] by simp
  qed
  moreover have "describe (Suc n + k) \<in> set [''InService'', ''Failed'']"
    using Suc.prems(2) by simp
  ultimately have "wait_for_endpoint_from describe (Suc n) = Some (Suc (Suc n + k))"
    by (rule Suc.IH)
  then show ?case
    using wait_for_endpoint_from_go[of describe n] first by simp
qed

lemma wait_for_endpoint_from_returned:
  assumes "wait_for_endpoint_from describe n = Some r"
  shows "\<exists>k\<ge>n. describe k \<in> set [''InService'', ''Failed'']"
proof (rule wait_for_endpoint_from.raw_induct[where P = "\<lambda>describe n r.
         \<exists>k\<ge>n. describe k \<in> set [''InService'', ''Failed'']", OF _ assms])
  fix f :: "(nat \<Rightarrow> string) \<Rightarrow> nat \<Rightarrow> nat option" and describe n r
  assume IH: "\<And>d m y. f d m = Some y \<Longrightarrow> \<exists>k\<ge>m. d k \<in> set [''InService'', ''Failed'']"
    and step: "(let status = describe n in
                if status \<in> set [''InService'', ''Failed''] then Some (Suc n)
                else f describe (Suc n)) = Some r"
  show "\<exists>k\<ge>n. describe k \<in> set [''InService'', ''Failed'']"
  proof (cases "describe n \<in> set [''InService'', ''Failed'']")
    case True
    then show ?thesis by blast
  next
    case False
    with step have "f describe (Suc n) = Some r" by (simp add: Let_def)
    from IH[OF this] obtain k where "Suc n \<le> k" "describe k \<in> set [''InService'', ''Failed'']"
      by blast
    then show ?thesis using Suc_leD by blast
  qed
qed

lemma wait_for_endpoint_never:
  assumes "\<forall>k. describe k \<notin> set [''InService'', ''Failed'']"
  shows "wait_for_endpoint_in_service describe = None"
proof (cases "wait_for_endpoint_in_service describe")
  case None
  then show ?thesis .
next
  case (Some r)
  then have "wait_for_endpoint_from describe 0 = Some r"
    by (simp add: wait_for_endpoint_in_service_def)
  from wait_for_endpoint_from_returned[OF this] assms show ?thesis by blast
qed

text \<open>
  C4, as the source has it. \<open>wait_for_endpoint_in_service\<close> returns if some call of
  \<open>describe_endpoint\<close> returns \<open>InService\<close> or \<open>Failed\<close>, and then with the
  first call that does; if no call ever returns one of these two statuses it never returns.
\<close>

theorem wait_for_endpoint_in_service_terminates:
  "((\<exists>k. describe k \<in> set [''InService'', ''Failed'']) \<longrightarrow>
      (\<exists>n. wait_for_endpoint_in_service describe = Some (Suc n) \<and>
           describe n \<in> set [''InService'', ''Failed''] \<and>
           (\<forall>i<n. describe i \<notin> set [''InService'', ''Failed'']))) \<and>
   ((\<forall>k. describe k \<notin> set [''InService'', ''Failed'']) \<longrightarrow>
      wait_for_endpoint_in_service describe = None)"
proof (intro conjI impI)
  assume "\<exists>k. describe k \<in> set [''InService'', ''Failed'']"
  then obtain k where "describe k \<in> set [''InService'', ''Failed'']" ..
  then obtain m where m: "describe m \<in> set [''InService'', ''Failed'']"
      "\<forall>i<m. describe i \<notin> set [''InService'', ''Failed'']"
    by (rule least_first[of "\<lambda>k. describe k \<in> set [''InService'', ''Failed'']"])
  have "wait_for_endpoint_from describe 0 = Some (Suc (0 + m))"
    by (rule wait_for_endpoint_from_reaches) (use m in simp_all)
  then have "wait_for_endpoint_in_service describe = Some (Suc m)"
    by (simp add: wait_for_endpoint_in_service_def)
  with m show "\<exists>n. wait_for_endpoint_in_service describe = Some (Suc n) \<and>
           describe n \<in> set [''InService'', ''Failed''] \<and>
           (\<forall>i<n. describe i \<notin> set [''InService'', ''Failed''])"
    by blast
next
  assume "\<forall>k. describe k \<notin> set [''InService'', ''Failed'']"
  then show "wait_for_endpoint_in_service describe = None"
    by (rule wait_for_endpoint_never)
qed

theorem wait_for_endpoint_in_service_terminates_witness:
  "(\<exists>n. wait_for_endpoint_in_service (then_always [''Creating'', ''Creating''] ''InService'') = Some (Suc n)) \<and>
   wait_for_endpoint_in_service (then_always [] ''Creating'') = None"
proof
  let ?d = "then_always [''Creating'', ''Creating''] ''InService''"
  have ex: "\<exists>k. ?d k \<in> set [''InService'', ''Failed'']"
  proof (rule exI[where x = 2])
    show "?d 2 \<in> set [''InService'', ''Failed'']"
      by (simp add: then_always_def)
  qed
  have "(\<exists>k. ?d k \<in> set [''InService'', ''Failed'']) \<longrightarrow>
      (\<exists>n. wait_for_endpoint_in_service ?d = Some (Suc n) \<and>
           ?d n \<in> set [''InService'', ''Failed''] \<and>
           (\<forall>i<n. ?d i \<notin> set [''InService'', ''Failed'']))"
    using wait_for_endpoint_in_service_terminates[of ?d] by (rule conjunct1)
  then have "\<exists>n. wait_for_endpoint_in_service ?d = Some (Suc n) \<and>
           ?d n \<in> set [''InService'', ''Failed''] \<and>
           (\<forall>i<n. ?d i \<notin> set [''InService'', ''Failed''])"
    using ex by (rule mp)
  then obtain n where "wait_for_endpoint_in_service ?d = Some (Suc n)"
    by (elim exE conjE)
  then show "\<exists>n. wait_for_endpoint_in_service ?d = Some (Suc n)"
    by (intro exI)
next
  let ?c = "then_always [] ''Creating''"
  have never: "\<forall>k. ?c k \<notin> set [''InService'', ''Failed'']"
    by (simp add: then_always_def)
  have "(\<forall>k. ?c k \<notin> set [''InService'', ''Failed'']) \<longrightarrow>
      wait_for_endpoint_in_service ?c = None"
    using wait_for_endpoint_in_service_terminates[of ?c] by (rule conjunct2)
  then show "wait_for_endpoint_in_service ?c = None"
    using never by (rule mp)
qed

text \<open>
  The claim as it is worded fails: an endpoint that leaves \<open>Creating\<close> for
  \<open>OutOfService\<close>, a status that is neither a creating nor an updating one, and stays
  there, is polled for ever.
\<close>

theorem wait_for_endpoint_in_service_counterexample:
  "\<not> creating_or_updating_status (then_always [''Creating''] ''OutOfService'' 1) \<and>
   wait_for_endpoint_in_service (then_always [''Creating''] ''OutOfService'') = None"
proof
  show "\<not> creating_or_updating_status (then_always [''Creating''] ''OutOfService'' 1)"
    by (simp add: creating_or_updating_status_def then_always_def)
next
  have "\<forall>k. then_always [''Creating''] ''OutOfService'' k \<notin> set [''InService'', ''Failed'']"
    by (simp add: then_always_def)
  then show "wait_for_endpoint_in_service (then_always [''Creating''] ''OutOfService'') = None"
    by (rule wait_for_endpoint_never)
qed

subsection \<open>The endpoint configuration\<close>

text \<open>
  C6. Whatever the times in the names, the configuration passed to
  \<open>create_endpoint_config\<close> has exactly one production variant, of
  \<open>InitialVariantWeight\<close> 1, and exactly one shadow variant, of
  \<open>InitialVariantWeight\<close> 0.5, and the two refer to different model names.
\<close>

theorem create_endpoint_config_one_production_one_shadow:
  "(\<exists>p s. ProductionVariants (create_endpoint_config_call t1 t2 t3) = [p] \<and>
          ShadowProductionVariants (create_endpoint_config_call t1 t2 t3) = [s] \<and>
          InitialVariantWeight p = 1 \<and> InitialVariantWeight s = 1 / 2 \<and>
          ModelName p = model_name t1 \<and> ModelName s = model_name2 t2 \<and>
          ModelName p \<noteq> ModelName s)"
  by (simp add: create_endpoint_config_call_def model_name_def model_name2_def)

subsection \<open>The export request\<close>

text \<open>
  C7. \<open>export_earth_observation_job\<close> adds exactly one call to the calls made, the
  export call, with the given ARN and the given role unchanged and with an
  \<open>OutputConfig\<close> that holds, under \<open>S3Data\<close>, the \<open>S3Uri\<close>
  \<open>s3://{bucket}/{prefix}/{task_suffix}/\<close> and an empty \<open>KmsKeyId\<close>.
\<close>

theorem export_earth_observation_job_passes_arguments:
  "\<exists>output_config s3_data.
     export_earth_observation_job calls eoj_arn role bucket prefix task_suffix =
       calls @ [ExportJob (JStr eoj_arn) (JStr role) output_config] \<and>
     output_config = JObj [(''S3Data'', JObj s3_data)] \<and>
     map fst s3_data = [''S3Uri'', ''KmsKeyId''] \<and>
     map_of s3_data ''S3Uri'' =
       Some (JStr (concat [''s3://'', bucket, ''/'', prefix, ''/'', task_suffix, ''/''])) \<and>
     map_of s3_data ''KmsKeyId'' = Some (JStr [])"
  by (simp add: export_earth_observation_job_def)

subsection \<open>The plotted arrays\<close>

lemma clamp_at_most_one: "x \<in> set (clamp arr) \<Longrightarrow> x = NaN \<or> at_most_one x"
proof -
  have "greater_than_one y \<or> y = NaN \<or> at_most_one y" for y
    by (cases y) auto
  moreover assume "x \<in> set (clamp arr)"
  ultimately show ?thesis
    by (auto simp: clamp_def)
qed

lemma rescale_NaN:
  assumes "NaN \<in> set (rescale fl arr)"
  shows "NaN \<in> set arr"
proof -
  from assms have "NaN \<in> divide_by_10000 fl ` set arr"
    by (simp add: rescale_def)
  then obtain y where member: "y \<in> set arr" and quotient: "NaN = divide_by_10000 fl y"
    by (rule imageE)
  from quotient have "y = NaN"
    by (cases y) simp_all
  with member show ?thesis
    by simp
qed

lemma clamp_NaN: "NaN \<in> set (clamp arr) \<Longrightarrow> NaN \<in> set arr"
proof -
  have "(NaN = (if greater_than_one y then Finite 1 else y)) = (y = NaN)" for y
    by (cases y) auto
  moreover assume "NaN \<in> set (clamp arr)"
  ultimately show ?thesis
    by (auto simp: clamp_def)
qed

lemma show_images_shown:
  "a \<in> set (show_images fl band number i objects) \<Longrightarrow>
     \<exists>key arr. (key, arr) \<in> set objects \<and>
       a = (if band \<noteq> ''visual'' then clamp (rescale fl arr) else arr)"
proof (induction objects arbitrary: i)
  case Nil
  then show ?case by simp
next
  case (Cons object rest)
  obtain key arr where object: "object = (key, arr)" by (cases object)
  show ?case
  proof (cases "str_in (band @ ''.tif'') key")
    case False
    with Cons.prems object have "a \<in> set (show_images fl band number i rest)" by simp
    from Cons.IH[OF this] obtain key' arr' where "(key', arr') \<in> set rest"
        "a = (if band \<noteq> ''visual'' then clamp (rescale fl arr') else arr')"
      by blast
    then show ?thesis
      by (intro exI[of _ key'] exI[of _ arr']) simp
  next
    case True
    let ?shown = "if band \<noteq> ''visual'' then clamp (rescale fl arr) else arr"
    from Cons.prems object True
    have "a = ?shown \<or> a \<in> set (show_images fl band number (i + 1) rest)"
      by (simp add: Let_def split: if_splits)
    then show ?thesis
    proof
      assume "a = ?shown"
      with object show ?thesis
        by (intro exI[of _ key] exI[of _ arr]) simp
    next
      assume "a \<in> set (show_images fl band number (i + 1) rest)"
      from Cons.IH[OF this] obtain key' arr' where "(key', arr') \<in> set rest"
          "a = (if band \<noteq> ''visual'' then clamp (rescale fl arr') else arr')"
        by blast
      then show ?thesis
        by (intro exI[of _ key'] exI[of _ arr']) simp
    qed
  qed
qed

text \<open>
  C8, as the source has it. Every array that \<open>visualize_cogt\<close> plots comes from an
  object of the bucket. For a band other than \<open>visual\<close> it is the array read with
  every element divided by 10000 and then clamped; every element of it is at most 1 or is
  a NaN, which the clamping leaves as it is, so that every element is at most 1 when the
  array read holds no NaN. For the band \<open>visual\<close> it is the array read, unchanged.
\<close>

theorem visualize_cogt_plots_at_most_one:
  assumes "visualize_cogt fl nb resp objects task eoj_arn band number = Inr shown"
    and "a \<in> set shown"
  shows "\<exists>key arr. (key, arr) \<in> set objects \<and>
           (if band \<noteq> ''visual''
            then a = clamp (map (divide_by_10000 fl) arr) \<and>
                 (\<forall>x \<in> set a. x = NaN \<or> at_most_one x) \<and>
                 (NaN \<notin> set arr \<longrightarrow> (\<forall>x \<in> set a. at_most_one x))
            else a = arr)"
proof -
  define objs where "objs =
      (case after_slash eoj_arn of
         Inl e \<Rightarrow> []
       | Inr job_id \<Rightarrow>
           filter (\<lambda>(key, arr). startswith key
                     (nb_prefix nb @ ''/'' @ task @ ''/'' @ job_id @ ''/output/consolidated/''))
             objects)"
  have objs: "set objs \<subseteq> set objects"
    by (auto simp: objs_def split: sum.splits)
  have "shown = [] \<or> shown = show_images fl band number 0 objs"
    using assms(1)
    by (auto simp: visualize_cogt_def objs_def split: option.splits if_splits sum.splits)
  with assms(2) have a: "a \<in> set (show_images fl band number 0 objs)"
    by auto
  from show_images_shown[OF a] obtain key arr where found: "(key, arr) \<in> set objs"
      and shape: "a = (if band \<noteq> ''visual'' then clamp (rescale fl arr) else arr)"
    by blast
  have member: "(key, arr) \<in> set objects"
    using objs found by (rule subsetD)
  show ?thesis
  proof (cases "band = ''visual''")
    case True
    with shape have "a = arr" by simp
    with member True have "(key, arr) \<in> set objects \<and>
           (if band \<noteq> ''visual''
            then a = clamp (map (divide_by_10000 fl) arr) \<and>
                 (\<forall>x \<in> set a. x = NaN \<or> at_most_one x) \<and>
                 (NaN \<notin> set arr \<longrightarrow> (\<forall>x \<in> set a. at_most_one x))
            else a = arr)"
      by simp
    then show ?thesis
      by (intro exI[of _ key] exI[of _ arr])
  next
    case False
    with shape have a_def: "a = clamp (rescale fl arr)" by simp
    have bound: "\<forall>x \<in> set a. x = NaN \<or> at_most_one x"
    proof
      fix x assume "x \<in> set a"
      then have "x \<in> set (clamp (rescale fl arr))" by (simp only: a_def)
      then show "x = NaN \<or> at_most_one x" by (rule clamp_at_most_one)
    qed
    have no_nan: "NaN \<notin> set arr \<longrightarrow> (\<forall>x \<in> set a. at_most_one x)"
    proof
      assume clean: "NaN \<notin> set arr"
      have absent: "NaN \<notin> set a"
      proof
        assume "NaN \<in> set a"
        then have "NaN \<in> set (clamp (rescale fl arr))" by (simp only: a_def)
        then have "NaN \<in> set (rescale fl arr)" by (rule clamp_NaN)
        then have "NaN \<in> set arr" by (rule rescale_NaN)
        with clean show False by simp
      qed
      show "\<forall>x \<in> set a. at_most_one x"
      proof
        fix x assume x: "x \<in> set a"
        with bound have "x = NaN \<or> at_most_one x" by (rule bspec)
        moreover from x absent have "x \<noteq> NaN" by auto
        ultimately show "at_most_one x" by simp
      qed
    qed
    have "a = clamp (map (divide_by_10000 fl) arr)"
      by (simp only: a_def rescale_def)
    with member False bound no_nan have "(key, arr) \<in> set objects \<and>
           (if band \<noteq> ''visual''
            then a = clamp (map (divide_by_10000 fl) arr) \<and>
                 (\<forall>x \<in> set a. x = NaN \<or> at_most_one x) \<and>
                 (NaN \<notin> set arr \<longrightarrow> (\<forall>x \<in> set a. at_most_one x))
            else a = arr)"
      by (simp only: if_True simp_thms)
    then show ?thesis
      by (intro exI[of _ key] exI[of _ arr])
  qed
qed

theorem visualize_cogt_plots_witness:
  "visualize_cogt (\<lambda>x. x)
     \<lparr> nb_role = ''role'', nb_bucket = ''b'', nb_prefix = ''p'',
       ts_eoj_arn = ''arn/j1'', s_eoj_arn = ''arn/j2'', lc_eoj_arn = ''arn/j3'' \<rparr>
     \<lparr> Status = ''COMPLETED'', ExportStatus = Some ''SUCCEEDED'' \<rparr>
     [(''p/t/j1/output/consolidated/nir.tif'', [Finite 12000, Finite 5000]),
      (''p/t/j1/output/consolidated/red.tif'', [Finite 7])]
     ''t'' ''arn/j1'' ''nir'' 4 = Inr [[Finite 1, Finite (1 / 2)]] \<and>
   list_all at_most_one [Finite 1, Finite (1 / 2)]"
proof -
  have run: "visualize_cogt (\<lambda>x. x)
     \<lparr> nb_role = ''role'', nb_bucket = ''b'', nb_prefix = ''p'',
       ts_eoj_arn = ''arn/j1'', s_eoj_arn = ''arn/j2'', lc_eoj_arn = ''arn/j3'' \<rparr>
     \<lparr> Status = ''COMPLETED'', ExportStatus = Some ''SUCCEEDED'' \<rparr>
     [(''p/t/j1/output/consolidated/nir.tif'', [Finite 12000, Finite 5000]),
      (''p/t/j1/output/consolidated/red.tif'', [Finite 7])]
     ''t'' ''arn/j1'' ''nir'' 4 = Inr [[Finite 1, Finite (1 / 2)]]"
    by (simp add: visualize_cogt_def clamp_def rescale_def)
  have shown: "[Finite 1, Finite (1 / 2)] \<in> set [[Finite 1, Finite (1 / 2)]]"
    by simp
  from visualize_cogt_plots_at_most_one[OF run shown]
  have "\<forall>x \<in> set [Finite 1, Finite (1 / 2)]. at_most_one x"
    by auto
  then have "list_all at_most_one [Finite 1, Finite (1 / 2)]"
    by (simp add: list_all_iff)
  with run show ?thesis by simp
qed

text \<open>
  The claim as it is worded fails on an array that holds a NaN: the NaN is not greater than
  1, so the clamping leaves it, and it is plotted, not at most 1.
\<close>

theorem visualize_cogt_plots_counterexample:
  "visualize_cogt (\<lambda>x. x)
     \<lparr> nb_role = ''role'', nb_bucket = ''b'', nb_prefix = ''p'',
       ts_eoj_arn = ''arn/j1'', s_eoj_arn = ''arn/j2'', lc_eoj_arn = ''arn/j3'' \<rparr>
     \<lparr> Status = ''COMPLETED'', ExportStatus = Some ''SUCCEEDED'' \<rparr>
     [(''p/t/j1/output/consolidated/nir.tif'', [NaN, Finite 20000, Finite 5000])]
     ''t'' ''arn/j1'' ''nir'' 4 = Inr [[NaN, Finite 1, Finite (1 / 2)]] \<and>
   \<not> list_all at_most_one [NaN, Finite 1, Finite (1 / 2)]"
  by (simp add: visualize_cogt_def clamp_def rescale_def)

subsection \<open>The export-monitoring loop\<close>

lemma check_eoj_raises:
  "(\<exists>e. check_eoj nb st j eoj resp = Inl e) \<longleftrightarrow> unknown_response resp"
  by (simp add: check_eoj_def unknown_response_def split: option.splits)

lemma check_eoj_exception:
  "check_eoj nb st j eoj resp = Inl e \<Longrightarrow> \<exists>msg. e = Exception msg"
  by (auto simp: check_eoj_def split: option.splits if_splits)

lemma check_eoj_length:
  "check_eoj nb st j eoj resp = Inr st' \<Longrightarrow> length (fst st') = length (fst st)"
  by (auto simp: check_eoj_def split: option.splits if_splits)

lemma check_eoj_shape:
  assumes "check_eoj nb st j eoj resp = Inr st'"
  shows "fst st' = fst st \<or> fst st' = (fst st)[j := ''Exporting''] \<or>
         (fst st' = (fst st)[j := ''Exported''] \<and> export_succeeded resp) \<or>
         fst st' = (fst st)[j := ''In progress'']"
  using assms
  by (auto simp: check_eoj_def export_succeeded_def split: option.splits if_splits)

lemma check_eoj_exported:
  assumes "check_eoj nb st j eoj resp = Inr st'" and "i < length (fst st)"
    and "fst st' ! i = ''Exported''"
  shows "fst st ! i = ''Exported'' \<or> (i = j \<and> export_succeeded resp)"
proof (cases "i = j")
  case True
  from check_eoj_shape[OF assms(1)] assms(2,3) True show ?thesis
    by (auto simp: nth_list_update)
next
  case False
  from check_eoj_shape[OF assms(1)] assms(2,3) False show ?thesis
    by (auto simp: nth_list_update)
qed

lemma check_eoj_succeeded:
  "export_succeeded resp \<Longrightarrow>
     check_eoj nb st j eoj resp = Inr ((fst st)[j := ''Exported''], snd st)"
  by (simp add: check_eoj_def export_succeeded_def)

lemma check_all_raises:
  "(\<exists>e. check_all nb poll js st = Inl e) \<longleftrightarrow> (\<exists>j eoj. (j, eoj) \<in> set js \<and> unknown_response (poll j))"
proof (induction js arbitrary: st)
  case Nil
  show ?case by simp
next
  case (Cons p js)
  obtain j eoj where p: "p = (j, eoj)" by (cases p)
  show ?case
  proof (cases "check_eoj nb st j eoj (poll j)")
    case (Inl e)
    then have "unknown_response (poll j)" using check_eoj_raises by blast
    with Inl p show ?thesis by auto
  next
    case (Inr st')
    then have "\<not> unknown_response (poll j)" using check_eoj_raises[of nb st j eoj "poll j"] by simp
    with Inr p Cons.IH[of st'] show ?thesis by auto
  qed
qed

lemma check_all_exception:
  "check_all nb poll js st = Inl e \<Longrightarrow> \<exists>msg. e = Exception msg"
proof (induction js arbitrary: st)
  case Nil
  then show ?case by simp
next
  case (Cons p js)
  obtain j eoj where p: "p = (j, eoj)" by (cases p)
  show ?case
  proof (cases "check_eoj nb st j eoj (poll j)")
    case (Inl e')
    with Cons.prems p have "e = e'" by simp
    with Inl show ?thesis using check_eoj_exception by blast
  next
    case (Inr st')
    with Cons.prems p have "check_all nb poll js st' = Inl e" by simp
    then show ?thesis by (rule Cons.IH)
  qed
qed

lemma check_all_length:
  "check_all nb poll js st = Inr st' \<Longrightarrow> length (fst st') = length (fst st)"
proof (induction js arbitrary: st)
  case Nil
  then show ?case by simp
next
  case (Cons p js)
  obtain j eoj where p: "p = (j, eoj)" by (cases p)
  show ?case
  proof (cases "check_eoj nb st j eoj (poll j)")
    case (Inl e')
    with Cons.prems p show ?thesis by simp
  next
    case (Inr st1)
    with Cons.prems p have "check_all nb poll js st1 = Inr st'" by simp
    then have "length (fst st') = length (fst st1)" by (rule Cons.IH)
    with check_eoj_length[OF Inr] show ?thesis by simp
  qed
qed

lemma check_all_exported:
  assumes "check_all nb poll js st = Inr st'" and "i < length (fst st)"
    and "fst st' ! i = ''Exported''"
  shows "fst st ! i = ''Exported'' \<or> export_succeeded (poll i)"
  using assms
proof (induction js arbitrary: st)
  case Nil
  then show ?case by simp
next
  case (Cons p js)
  obtain j eoj where p: "p = (j, eoj)" by (cases p)
  show ?case
  proof (cases "check_eoj nb st j eoj (poll j)")
    case (Inl e')
    with Cons.prems p show ?thesis by simp
  next
    case (Inr st1)
    with Cons.prems p have rest: "check_all nb poll js st1 = Inr st'" by simp
    have len: "i < length (fst st1)" using check_eoj_length[OF Inr] Cons.prems(2) by simp
    from Cons.IH[OF rest len Cons.prems(3)]
    show ?thesis
    proof
      assume "fst st1 ! i = ''Exported''"
      from check_eoj_exported[OF Inr Cons.prems(2) this] show ?thesis by auto
    next
      assume "export_succeeded (poll i)"
      then show ?thesis ..
    qed
  qed
qed

lemma enumerate_EOJs:
  "enumerate 0 (EOJs nb) = [(0, ts_eoj_arn nb), (1, s_eoj_arn nb), (2, lc_eoj_arn nb)]"
  by (simp add: EOJs_def numeral_2_eq_2)

lemma less_three: "j < 3 \<longleftrightarrow> j = 0 \<or> j = 1 \<or> j = (2::nat)"
  by auto

lemma in_enumerate_EOJs_iff:
  "(\<exists>j eoj. (j, eoj) \<in> set (enumerate 0 (EOJs nb)) \<and> P j) \<longleftrightarrow> (\<exists>j<3. P j)"
  unfolding less_three enumerate_EOJs by auto

lemma all_exported_three:
  "length xs = 3 \<Longrightarrow> all_exported (xs[0 := ''Exported'', 1 := ''Exported'', 2 := ''Exported''])"
proof -
  assume "length xs = 3"
  then obtain a b c where "xs = [a, b, c]"
    by (cases xs; cases "tl xs"; cases "tl (tl xs)") auto
  then show ?thesis by (simp add: all_exported_def numeral_2_eq_2)
qed

lemma check_all_succeeded:
  assumes "\<forall>j<3. export_succeeded (poll j)" and "length (fst st) = 3"
  shows "\<exists>st'. check_all nb poll (enumerate 0 (EOJs nb)) st = Inr st' \<and> all_exported (fst st')"
proof -
  have "export_succeeded (poll 0)" "export_succeeded (poll 1)" "export_succeeded (poll 2)"
    using assms(1) by simp_all
  then have "check_all nb poll (enumerate 0 (EOJs nb)) st =
      Inr ((fst st)[0 := ''Exported'', 1 := ''Exported'', 2 := ''Exported''], snd st)"
    by (simp add: enumerate_EOJs check_eoj_succeeded)
  with all_exported_three[OF assms(2)] show ?thesis by simp
qed

lemma export_loop_done:
  "all_exported (fst st) \<Longrightarrow> export_loop nb poll r st = Some (Inr (r, st))"
  by (subst export_loop.simps) simp

lemma export_loop_raise:
  "\<not> all_exported (fst st) \<Longrightarrow> check_all nb (poll r) (enumerate 0 (EOJs nb)) st = Inl e \<Longrightarrow>
     export_loop nb poll r st = Some (Inl e)"
  by (subst export_loop.simps) simp

lemma export_loop_break:
  "\<not> all_exported (fst st) \<Longrightarrow> check_all nb (poll r) (enumerate 0 (EOJs nb)) st = Inr st' \<Longrightarrow>
     all_exported (fst st') \<Longrightarrow> export_loop nb poll r st = Some (Inr (Suc r, st'))"
  by (subst export_loop.simps) simp

lemma export_loop_again:
  "\<not> all_exported (fst st) \<Longrightarrow> check_all nb (poll r) (enumerate 0 (EOJs nb)) st = Inr st' \<Longrightarrow>
     \<not> all_exported (fst st') \<Longrightarrow> export_loop nb poll r st = export_loop nb poll (Suc r) st'"
  by (subst export_loop.simps) simp

lemma recorded_step:
  assumes "check_all nb (poll r) js st = Inr st'" and "recorded poll r (fst st)"
  shows "recorded poll (Suc r) (fst st')"
proof -
  from assms(2) have len: "length (fst st) = 3" by (simp add: recorded_def)
  have len': "length (fst st') = 3" using check_all_length[OF assms(1)] len by simp
  have "\<exists>r'<Suc r. export_succeeded (poll r' j)"
    if j: "j < 3" and e: "fst st' ! j = ''Exported''" for j
  proof -
    from j len have "j < length (fst st)" by simp
    from check_all_exported[OF assms(1) this e]
    show ?thesis
    proof
      assume "fst st ! j = ''Exported''"
      with assms(2) j obtain r' where "r' < r" "export_succeeded (poll r' j)"
        unfolding recorded_def by blast
      then show ?thesis using less_Suc_eq by blast
    next
      assume "export_succeeded (poll r j)"
      then show ?thesis by blast
    qed
  qed
  with len' show ?thesis unfolding recorded_def by blast
qed

lemma export_loop_returned:
  assumes "export_loop nb poll r st = Some res"
  shows "\<forall>n st'. res = Inr (n, st') \<longrightarrow> recorded poll r (fst st) \<longrightarrow>
           recorded poll n (fst st') \<and> all_exported (fst st')"
proof (rule export_loop.raw_induct[where P = "\<lambda>nb poll r st res.
         \<forall>n st'. res = Inr (n, st') \<longrightarrow> recorded poll r (fst st) \<longrightarrow>
           recorded poll n (fst st') \<and> all_exported (fst st')", OF _ assms])
  fix f :: "notebook \<Rightarrow> (nat \<Rightarrow> nat \<Rightarrow> eoj_response) \<Rightarrow> nat \<Rightarrow> string list \<times> api_call list \<Rightarrow>
     (exn + nat \<times> string list \<times> api_call list) option"
    and nb poll r st res
  assume IH: "\<And>nb poll r st res. f nb poll r st = Some res \<Longrightarrow>
         \<forall>n st'. res = Inr (n, st') \<longrightarrow> recorded poll r (fst st) \<longrightarrow>
           recorded poll n (fst st') \<and> all_exported (fst st')"
    and step: "(if all_exported (fst st) then Some (Inr (r, st))
      else
        (case check_all nb (poll r) (enumerate 0 (EOJs nb)) st of
           Inl e \<Rightarrow> Some (Inl e)
         | Inr st' \<Rightarrow>
             if all_exported (fst st') then Some (Inr (Suc r, st'))
             else f nb poll (Suc r) st')) = Some res"
  show "\<forall>n st'. res = Inr (n, st') \<longrightarrow> recorded poll r (fst st) \<longrightarrow>
           recorded poll n (fst st') \<and> all_exported (fst st')"
  proof (intro allI impI)
    fix n st'
    assume res: "res = Inr (n, st')" and inv: "recorded poll r (fst st)"
    show "recorded poll n (fst st') \<and> all_exported (fst st')"
    proof (cases "all_exported (fst st)")
      case True
      with step res inv show ?thesis by simp
    next
      case False
      show ?thesis
      proof (cases "check_all nb (poll r) (enumerate 0 (EOJs nb)) st")
        case (Inl e)
        with step False res show ?thesis by simp
      next
        case (Inr st1)
        have inv1: "recorded poll (Suc r) (fst st1)"
          using recorded_step[OF Inr inv] .
        show ?thesis
        proof (cases "all_exported (fst st1)")
          case True
          with step False Inr res inv1 show ?thesis by simp
        next
          case nope: False
          with step False Inr have "f nb poll (Suc r) st1 = Some res" by simp
          from IH[OF this] res inv1 show ?thesis by blast
        qed
      qed
    qed
  qed
qed

lemma export_loop_ends_at_unknown:
  assumes "j < 3" and "unknown_response (poll n j)" and "r \<le> n"
  shows "(\<exists>msg. export_loop nb poll r st = Some (Inl (Exception msg))) \<or>
         (\<exists>m st'. m \<le> n \<and> export_loop nb poll r st = Some (Inr (m, st')))"
  using assms(3)
proof (induction "n - r" arbitrary: r st)
  case 0
  then have rn: "r = n" by simp
  show ?case
  proof (cases "all_exported (fst st)")
    case True
    from export_loop_done[OF True] "0.prems" show ?thesis by blast
  next
    case False
    have "\<exists>j eoj. (j, eoj) \<in> set (enumerate 0 (EOJs nb)) \<and> unknown_response (poll r j)"
      using assms(1,2) rn in_enumerate_EOJs_iff[of nb "\<lambda>j. unknown_response (poll r j)"] by blast
    then obtain e where e: "check_all nb (poll r) (enumerate 0 (EOJs nb)) st = Inl e"
      using check_all_raises[of nb "poll r" "enumerate 0 (EOJs nb)" st] by blast
    from check_all_exception[OF e] obtain msg where "e = Exception msg" ..
    with export_loop_raise[where poll = poll and r = r, OF False e] show ?thesis by blast
  qed
next
  case (Suc k)
  then have lt: "Suc r \<le> n" and k: "k = n - Suc r" by simp_all
  show ?case
  proof (cases "all_exported (fst st)")
    case True
    from export_loop_done[OF True] Suc.prems show ?thesis by blast
  next
    case False
    show ?thesis
    proof (cases "check_all nb (poll r) (enumerate 0 (EOJs nb)) st")
      case (Inl e)
      from check_all_exception[OF Inl] obtain msg where "e = Exception msg" ..
      with export_loop_raise[where poll = poll and r = r, OF False Inl] show ?thesis by blast
    next
      case (Inr st1)
      show ?thesis
      proof (cases "all_exported (fst st1)")
        case True
        from export_loop_break[where poll = poll and r = r, OF False Inr True] lt show ?thesis by blast
      next
        case nope: False
        from export_loop_again[where poll = poll and r = r, OF False Inr nope] Suc.hyps(1)[OF k lt, of st1]
        show ?thesis by simp
      qed
    qed
  qed
qed

lemma export_loop_exits_when_succeeded:
  assumes "\<forall>j<3. export_succeeded (poll n j)"
    and "\<forall>r'<n. \<forall>j<3. \<not> unknown_response (poll r' j)"
    and "r \<le> n" and "length (fst st) = 3"
  shows "\<exists>m st'. m \<le> Suc n \<and> export_loop nb poll r st = Some (Inr (m, st'))"
  using assms(3,4)
proof (induction "n - r" arbitrary: r st)
  case 0
  then have rn: "r = n" by simp
  show ?case
  proof (cases "all_exported (fst st)")
    case True
    from export_loop_done[OF True] "0.prems" show ?thesis by (metis le_SucI)
  next
    case False
    from check_all_succeeded[of "poll r" st nb] assms(1) rn "0.prems"(2)
    obtain st1 where "check_all nb (poll r) (enumerate 0 (EOJs nb)) st = Inr st1"
        "all_exported (fst st1)" by blast
    from export_loop_break[where poll = poll and r = r, OF False this] rn show ?thesis by blast
  qed
next
  case (Suc k)
  then have lt: "Suc r \<le> n" and k: "k = n - Suc r" by simp_all
  show ?case
  proof (cases "all_exported (fst st)")
    case True
    from export_loop_done[OF True] Suc.prems show ?thesis by (metis le_SucI)
  next
    case False
    have "\<not> (\<exists>j eoj. (j, eoj) \<in> set (enumerate 0 (EOJs nb)) \<and> unknown_response (poll r j))"
      using assms(2) lt in_enumerate_EOJs_iff[of nb "\<lambda>j. unknown_response (poll r j)"] by auto
    then have "\<not> (\<exists>e. check_all nb (poll r) (enumerate 0 (EOJs nb)) st = Inl e)"
      using check_all_raises[of nb "poll r" "enumerate 0 (EOJs nb)" st] by simp
    then obtain st1 where Inr: "check_all nb (poll r) (enumerate 0 (EOJs nb)) st = Inr st1"
      by (cases "check_all nb (poll r) (enumerate 0 (EOJs nb)) st") auto
    have len1: "length (fst st1) = 3" using check_all_length[OF Inr] Suc.prems(2) by simp
    show ?thesis
    proof (cases "all_exported (fst st1)")
      case True
      from export_loop_break[where poll = poll and r = r, OF False Inr True] lt show ?thesis by (metis le_SucI)
    next
      case nope: False
      from export_loop_again[where poll = poll and r = r, OF False Inr nope] Suc.hyps(1)[OF k lt len1]
      show ?thesis by simp
    qed
  qed
qed

text \<open>
  C5, as the source has it. (1) The loop over the three jobs is left normally only with
  every job recorded as \<open>Exported\<close>, and then every job was polled, in some earlier
  turn, as \<open>COMPLETED\<close> with \<open>ExportStatus\<close> \<open>SUCCEEDED\<close>. (2) If in turn
  \<open>n\<close> all three jobs are polled so, and no response of an earlier turn is outside the
  known set, the loop is left normally, after at most \<open>n + 1\<close> turns. (3) A response
  outside the known set in turn \<open>n\<close> (a \<open>Status\<close> other than \<open>COMPLETED\<close> or
  \<open>IN_PROGRESS\<close>, or, for a \<open>COMPLETED\<close> job, an \<open>ExportStatus\<close> other than
  \<open>IN_PROGRESS\<close> or \<open>SUCCEEDED\<close>) is not retried: the loop raises its exception,
  unless it raised or was left before that response was polled.
\<close>

theorem export_monitor_exits_or_raises:
  "(export_monitor nb poll = Some (Inr (n, eoj_status, calls)) \<longrightarrow>
      all_exported eoj_status \<and> (\<forall>j<3. \<exists>r<n. export_succeeded (poll r j))) \<and>
   ((\<forall>j<3. export_succeeded (poll n j)) \<and> (\<forall>r<n. \<forall>j<3. \<not> unknown_response (poll r j)) \<longrightarrow>
      (\<exists>m st. m \<le> Suc n \<and> export_monitor nb poll = Some (Inr (m, st)))) \<and>
   (j < 3 \<and> unknown_response (poll n j) \<longrightarrow>
      (\<exists>msg. export_monitor nb poll = Some (Inl (Exception msg))) \<or>
      (\<exists>m st. m \<le> n \<and> export_monitor nb poll = Some (Inr (m, st))))"
proof -
  have exits: "export_monitor nb poll = Some (Inr (n, eoj_status, calls)) \<longrightarrow>
      all_exported eoj_status \<and> (\<forall>j<3. \<exists>r<n. export_succeeded (poll r j))"
  proof
    assume run: "export_monitor nb poll = Some (Inr (n, eoj_status, calls))"
    have init: "recorded poll 0 (fst (replicate (length (EOJs nb)) [], []::api_call list))"
      by (simp add: recorded_def EOJs_def less_three)
    from run have "export_loop nb poll 0 (replicate (length (EOJs nb)) [], []) = Some (Inr (n, eoj_status, calls))"
      by (simp add: export_monitor_def)
    from export_loop_returned[OF this] init
    have fin: "recorded poll n eoj_status \<and> all_exported eoj_status" by simp
    then have three: "length eoj_status = 3" by (simp add: recorded_def)
    with fin have "\<forall>j<3. eoj_status ! j = ''Exported''"
      by (simp add: all_exported_def list_all_length)
    with fin show "all_exported eoj_status \<and> (\<forall>j<3. \<exists>r<n. export_succeeded (poll r j))"
      unfolding recorded_def by blast
  qed
  have succeeds: "(\<forall>j<3. export_succeeded (poll n j)) \<and> (\<forall>r<n. \<forall>j<3. \<not> unknown_response (poll r j)) \<longrightarrow>
      (\<exists>m st. m \<le> Suc n \<and> export_monitor nb poll = Some (Inr (m, st)))"
  proof
    assume "(\<forall>j<3. export_succeeded (poll n j)) \<and> (\<forall>r<n. \<forall>j<3. \<not> unknown_response (poll r j))"
    then show "\<exists>m st. m \<le> Suc n \<and> export_monitor nb poll = Some (Inr (m, st))"
      unfolding export_monitor_def
      by (intro export_loop_exits_when_succeeded) (simp_all add: EOJs_def)
  qed
  have raises: "j < 3 \<and> unknown_response (poll n j) \<longrightarrow>
      (\<exists>msg. export_monitor nb poll = Some (Inl (Exception msg))) \<or>
      (\<exists>m st. m \<le> n \<and> export_monitor nb poll = Some (Inr (m, st)))"
  proof
    assume "j < 3 \<and> unknown_response (poll n j)"
    then show "(\<exists>msg. export_monitor nb poll = Some (Inl (Exception msg))) \<or>
        (\<exists>m st. m \<le> n \<and> export_monitor nb poll = Some (Inr (m, st)))"
      unfolding export_monitor_def
      by (intro export_loop_ends_at_unknown[of j]) simp_all
  qed
  show ?thesis
    by (rule conjI[OF exits conjI[OF succeeds raises]])
qed

lemma then_always_Nil: "then_always [] d = (\<lambda>k. d)"
  by (rule ext) (simp add: then_always_def)

lemma then_always_Cons_0: "then_always (x # xs) d 0 = x"
  by (simp add: then_always_def)

lemma then_always_Cons_Suc: "then_always (x # xs) d (Suc k) = then_always xs d k"
  by (simp add: then_always_def)

theorem export_monitor_exits_or_raises_witness:
  "(all_exported [''Exported'', ''Exported'', ''Exported''] \<and>
    (\<exists>r<1. export_succeeded
       (then_always [] (then_always [] \<lparr> Status = ''COMPLETED'', ExportStatus = Some ''SUCCEEDED'' \<rparr>) r 2))) \<and>
   (\<exists>m st. m \<le> Suc 0 \<and>
      export_monitor
        \<lparr> nb_role = ''role'', nb_bucket = ''b'', nb_prefix = ''p'',
          ts_eoj_arn = ''arn/j1'', s_eoj_arn = ''arn/j2'', lc_eoj_arn = ''arn/j3'' \<rparr>
        (then_always [] (then_always [] \<lparr> Status = ''COMPLETED'', ExportStatus = Some ''SUCCEEDED'' \<rparr>))
      = Some (Inr (m, st))) \<and>
   export_monitor
     \<lparr> nb_role = ''role'', nb_bucket = ''b'', nb_prefix = ''p'',
       ts_eoj_arn = ''arn/j1'', s_eoj_arn = ''arn/j2'', lc_eoj_arn = ''arn/j3'' \<rparr>
     (then_always [] (then_always [] \<lparr> Status = ''FAILED'', ExportStatus = None \<rparr>))
   = Some (Inl (Exception ''Error with the EOJ''))"
proof -
  let ?nb = "\<lparr> nb_role = ''role'', nb_bucket = ''b'', nb_prefix = ''p'',
       ts_eoj_arn = ''arn/j1'', s_eoj_arn = ''arn/j2'', lc_eoj_arn = ''arn/j3'' \<rparr>"
  let ?good = "then_always [] (then_always [] \<lparr> Status = ''COMPLETED'', ExportStatus = Some ''SUCCEEDED'' \<rparr>)"
  let ?bad = "then_always [] (then_always [] \<lparr> Status = ''FAILED'', ExportStatus = None \<rparr>)"
  have run: "export_monitor ?nb ?good = Some (Inr (1, [''Exported'', ''Exported'', ''Exported''], []))"
    by (simp add: export_monitor_def export_loop.simps enumerate_EOJs EOJs_def check_eoj_def
          all_exported_def then_always_Nil numeral_2_eq_2)
  have good: "(\<forall>j<3. export_succeeded (?good 0 j)) \<and> (\<forall>r<0. \<forall>j<3. \<not> unknown_response (?good r j))"
    by (simp add: then_always_Nil export_succeeded_def)
  have bad: "0 < (3::nat) \<and> unknown_response (?bad 0 0)"
    by (simp add: then_always_Nil unknown_response_def)
  have "all_exported [''Exported'', ''Exported'', ''Exported''] \<and>
      (\<forall>j<3. \<exists>r<1. export_succeeded (?good r j))"
    using export_monitor_exits_or_raises
      [of ?nb ?good 1 "[''Exported'', ''Exported'', ''Exported'']" "[]" 0] run
    by simp
  then have first: "all_exported [''Exported'', ''Exported'', ''Exported''] \<and>
      (\<exists>r<1. export_succeeded (?good r 2))"
    by simp
  have second: "\<exists>m st. m \<le> Suc 0 \<and> export_monitor ?nb ?good = Some (Inr (m, st))"
    using export_monitor_exits_or_raises[of ?nb ?good 0 "[]" "[]" 0] good
    by simp
  have "(\<exists>msg. export_monitor ?nb ?bad = Some (Inl (Exception msg))) \<or>
      (\<exists>m st. m \<le> 0 \<and> export_monitor ?nb ?bad = Some (Inr (m, st)))"
    using export_monitor_exits_or_raises[of ?nb ?bad 0 "[]" "[]" 0] bad
    by simp
  moreover have "export_monitor ?nb ?bad = Some (Inl (Exception ''Error with the EOJ''))"
    by (simp add: export_monitor_def export_loop.simps enumerate_EOJs EOJs_def check_eoj_def
          all_exported_def then_always_Nil numeral_2_eq_2)
  ultimately show ?thesis
    using first second by simp
qed

text \<open>
  The claim as it is worded fails twice. A response whose \<open>ExportStatus\<close> is
  \<open>FAILED\<close>, for a job still \<open>IN_PROGRESS\<close>, does not make the loop raise: the
  \<open>ExportStatus\<close> is read for a \<open>COMPLETED\<close> job only, and the loop below is left
  normally. And the loop need not be left normally when every job has been polled with
  \<open>ExportStatus\<close> \<open>SUCCEEDED\<close>: the entries must all be \<open>Exported\<close> at the end of
  one turn, and an entry is overwritten by every later response.
\<close>

theorem export_monitor_counterexample:
  "ExportStatus
     (then_always
        [then_always [\<lparr> Status = ''IN_PROGRESS'', ExportStatus = Some ''FAILED'' \<rparr>]
           \<lparr> Status = ''COMPLETED'', ExportStatus = Some ''SUCCEEDED'' \<rparr>]
        (then_always [] \<lparr> Status = ''COMPLETED'', ExportStatus = Some ''SUCCEEDED'' \<rparr>) 0 0)
     = Some ''FAILED'' \<and>
   export_monitor
     \<lparr> nb_role = ''role'', nb_bucket = ''b'', nb_prefix = ''p'',
       ts_eoj_arn = ''arn/j1'', s_eoj_arn = ''arn/j2'', lc_eoj_arn = ''arn/j3'' \<rparr>
     (then_always
        [then_always [\<lparr> Status = ''IN_PROGRESS'', ExportStatus = Some ''FAILED'' \<rparr>]
           \<lparr> Status = ''COMPLETED'', ExportStatus = Some ''SUCCEEDED'' \<rparr>]
        (then_always [] \<lparr> Status = ''COMPLETED'', ExportStatus = Some ''SUCCEEDED'' \<rparr>))
     = Some (Inr (2, [''Exported'', ''Exported'', ''Exported''], [])) \<and>
   export_succeeded
     (then_always
        [then_always [\<lparr> Status = ''COMPLETED'', ExportStatus = Some ''SUCCEEDED'' \<rparr>,
                      \<lparr> Status = ''COMPLETED'', ExportStatus = Some ''SUCCEEDED'' \<rparr>]
           \<lparr> Status = ''IN_PROGRESS'', ExportStatus = None \<rparr>,
         then_always [\<lparr> Status = ''COMPLETED'', ExportStatus = Some ''IN_PROGRESS'' \<rparr>]
           \<lparr> Status = ''COMPLETED'', ExportStatus = Some ''SUCCEEDED'' \<rparr>]
        (then_always [\<lparr> Status = ''COMPLETED'', ExportStatus = Some ''FAILED'' \<rparr>]
           \<lparr> Status = ''COMPLETED'', ExportStatus = Some ''SUCCEEDED'' \<rparr>) 0 0) \<and>
   export_succeeded
     (then_always
        [then_always [\<lparr> Status = ''COMPLETED'', ExportStatus = Some ''SUCCEEDED'' \<rparr>,
                      \<lparr> Status = ''COMPLETED'', ExportStatus = Some ''SUCCEEDED'' \<rparr>]
           \<lparr> Status = ''IN_PROGRESS'', ExportStatus = None \<rparr>,
         then_always [\<lparr> Status = ''COMPLETED'', ExportStatus = Some ''IN_PROGRESS'' \<rparr>]
           \<lparr> Status = ''COMPLETED'', ExportStatus = Some ''SUCCEEDED'' \<rparr>]
        (then_always [\<lparr> Status = ''COMPLETED'', ExportStatus = Some ''FAILED'' \<rparr>]
           \<lparr> Status = ''COMPLETED'', ExportStatus = Some ''SUCCEEDED'' \<rparr>) 0 1) \<and>
   export_succeeded
     (then_always
        [then_always [\<lparr> Status = ''COMPLETED'', ExportStatus = Some ''SUCCEEDED'' \<rparr>,
                      \<lparr> Status = ''COMPLETED'', ExportStatus = Some ''SUCCEEDED'' \<rparr>]
           \<lparr> Status = ''IN_PROGRESS'', ExportStatus = None \<rparr>,
         then_always [\<lparr> Status = ''COMPLETED'', ExportStatus = Some ''IN_PROGRESS'' \<rparr>]
           \<lparr> Status = ''COMPLETED'', ExportStatus = Some ''SUCCEEDED'' \<rparr>]
        (then_always [\<lparr> Status = ''COMPLETED'', ExportStatus = Some ''FAILED'' \<rparr>]
           \<lparr> Status = ''COMPLETED'', ExportStatus = Some ''SUCCEEDED'' \<rparr>) 1 2) \<and>
   export_monitor
     \<lparr> nb_role = ''role'', nb_bucket = ''b'', nb_prefix = ''p'',
       ts_eoj_arn = ''arn/j1'', s_eoj_arn = ''arn/j2'', lc_eoj_arn = ''arn/j3'' \<rparr>
     (then_always
        [then_always [\<lparr> Status = ''COMPLETED'', ExportStatus = Some ''SUCCEEDED'' \<rparr>,
                      \<lparr> Status = ''COMPLETED'', ExportStatus = Some ''SUCCEEDED'' \<rparr>]
           \<lparr> Status = ''IN_PROGRESS'', ExportStatus = None \<rparr>,
         then_always [\<lparr> Status = ''COMPLETED'', ExportStatus = Some ''IN_PROGRESS'' \<rparr>]
           \<lparr> Status = ''COMPLETED'', ExportStatus = Some ''SUCCEEDED'' \<rparr>]
        (then_always [\<lparr> Status = ''COMPLETED'', ExportStatus = Some ''FAILED'' \<rparr>]
           \<lparr> Status = ''COMPLETED'', ExportStatus = Some ''SUCCEEDED'' \<rparr>))
     = Some (Inl (Exception ''Error exporting''))"
  by (simp add: export_monitor_def export_loop.simps enumerate_EOJs EOJs_def check_eoj_def
        export_succeeded_def all_exported_def then_always_Nil then_always_Cons_0
        then_always_Cons_Suc numeral_2_eq_2)

subsection \<open>The cloud function\<close>





lemma subscript_JObj:
  "subscript (JObj kvs) key =
     (case map_of kvs key of None \<Rightarrow> Inl (KeyError key) | Some v \<Rightarrow> Inr v)"
  by (simp add: subscript_def)













text \<open>
  C2 at the status \<open>SUCCEEDED\<close>. The handler checks the status and then asks the
  SageMaker client for \<open>send_pipeline_execution_step_sucess\<close>, which the client does not
  have: it ends with an \<open>AttributeError\<close>, and no success signal is sent for the token.
\<close>

theorem lambda_handler_succeeded_sends_no_signal:
  "lambda_handler (example_services ''SUCCEEDED'')
     [(''Records'', JArr [JObj [(''body'', JStr example_body)]])] =
     ([GetJob (JStr ''arn/1'')],
      Inl (AttributeError ''send_pipeline_execution_step_sucess''))"
  by (simp add: lambda_handler_def contains_key_def check_eojs_def check_record_def
      after_status_check_def json_loads_def subscript_def iterate_def example_services_def
      example_client_def sagemaker_call_def region_of_def except_client_error_def)

text \<open>
  C9, as the source has it. An event with none of the keys \<open>eoj_name\<close>,
  \<open>eoj_output_config\<close> and \<open>Records\<close> makes no call; it returns
  \<open>{"statusCode": 200, "eoj_arn": ""}\<close> when the client for its region is created, and
  otherwise the handler ends with what the creation of the client raised.
\<close>

theorem lambda_handler_no_keys:
  assumes "\<not> contains_key event ''eoj_name''" and "\<not> contains_key event ''eoj_output_config''"
    and "\<not> contains_key event ''Records''"
  shows "fst (lambda_handler sv event) = [] \<and>
         (create_client sv (region_of event) = Inr () \<longrightarrow>
            lambda_handler sv event =
              ([], Inr (JObj [(''statusCode'', JNum 200), (''eoj_arn'', JStr [])]))) \<and>
         (\<forall>e. create_client sv (region_of event) = Inl e \<longrightarrow>
            lambda_handler sv event = ([], Inl (except_client_error e)))"
  using assms by (simp add: lambda_handler_def return_arn_def split: sum.split)

theorem lambda_handler_no_keys_witness:
  "lambda_handler (example_services ''IN_PROGRESS'') [(''region'', JStr ''eu-west-1'')] =
     ([], Inr (JObj [(''statusCode'', JNum 200), (''eoj_arn'', JStr [])]))"
proof -
  have keys: "\<not> contains_key [(''region'', JStr ''eu-west-1'')] ''eoj_name''"
    "\<not> contains_key [(''region'', JStr ''eu-west-1'')] ''eoj_output_config''"
    "\<not> contains_key [(''region'', JStr ''eu-west-1'')] ''Records''"
    by (simp_all add: contains_key_def)
  have client: "create_client (example_services ''IN_PROGRESS'')
      (region_of [(''region'', JStr ''eu-west-1'')]) = Inr ()"
    by (simp add: region_of_def contains_key_def example_services_def example_client_def)
  from lambda_handler_no_keys[OF keys, of "example_services ''IN_PROGRESS''"] client
  show ?thesis by simp
qed

text \<open>
  The claim as it is worded fails: the client is created from the region of the event
  before any key is looked at, and for a region name that is not well-formed its creation
  raises; the handler then returns nothing.
\<close>

theorem lambda_handler_no_keys_counterexample:
  "\<not> contains_key [(''region'', JStr ''not a region!'')] ''eoj_name'' \<and>
   \<not> contains_key [(''region'', JStr ''not a region!'')] ''eoj_output_config'' \<and>
   \<not> contains_key [(''region'', JStr ''not a region!'')] ''Records'' \<and>
   lambda_handler (example_services ''IN_PROGRESS'') [(''region'', JStr ''not a region!'')] =
     ([], Inl (InvalidRegionError ''not a region!''))"
  by (simp add: lambda_handler_def contains_key_def region_of_def example_services_def
      example_client_def except_client_error_def)

text \<open>
  C10, as the source has it. In the job-creation branch, when the string form of
  \<open>event["eoj_input_config"]\<close> contains neither \<open>RasterDataCollectionQuery\<close> nor
  \<open>arn\<close>, \<open>input_config\<close> is never assigned and the handler ends with an exception
  before any call is made: once the client is created, with the \<open>NameError\<close> when
  the event has the key \<open>role\<close>, and otherwise with the \<open>KeyError\<close> of
  \<open>event["role"]\<close>, which is evaluated first.
\<close>

theorem lambda_handler_input_config_unassigned:
  assumes "contains_key event ''eoj_name''"
    and "map_of event ''eoj_input_config'' = Some cfg"
    and "\<not> str_in ''RasterDataCollectionQuery'' (py_str sv cfg)"
    and "\<not> str_in ''arn'' (py_str sv cfg)"
  shows "fst (lambda_handler sv event) = [] \<and>
         (\<exists>e. snd (lambda_handler sv event) = Inl e) \<and>
         (create_client sv (region_of event) = Inr () \<longrightarrow>
            lambda_handler sv event =
              ([], Inl (if contains_key event ''role'' then NameError ''input_config''
                        else KeyError ''role'')))"
proof -
  from assms(1) obtain n where n: "map_of event ''eoj_name'' = Some n"
    by (auto simp: contains_key_def)
  have cfg: "input_config_of sv cfg = Inr None"
    using assms(3,4) by (simp add: input_config_of_def)
  have branch: "create_eoj sv event =
      ([], Inl (if contains_key event ''role'' then NameError ''input_config''
                else KeyError ''role''))"
  proof (cases "map_of event ''role''")
    case None
    with n assms(2) cfg show ?thesis
      by (simp add: create_eoj_def contains_key_def subscript_JObj)
  next
    case (Some r)
    with n assms(2) cfg show ?thesis
      by (simp add: create_eoj_def contains_key_def subscript_JObj)
  qed
  show ?thesis
  proof (cases "create_client sv (region_of event)")
    case (Inl e)
    then show ?thesis
      by (simp add: lambda_handler_def)
  next
    case (Inr client)
    with assms(1) branch show ?thesis
      by (simp add: lambda_handler_def except_client_error_def)
  qed
qed

theorem lambda_handler_input_config_unassigned_witness:
  "lambda_handler (example_services ''IN_PROGRESS'')
     [(''eoj_name'', JStr ''job''), (''role'', JStr ''r''), (''eoj_input_config'', JStr ''collection''),
      (''eoj_config'', JStr ''{}'')] =
     ([], Inl (NameError ''input_config''))"
proof -
  let ?event = "[(''eoj_name'', JStr ''job''), (''role'', JStr ''r''),
                 (''eoj_input_config'', JStr ''collection''), (''eoj_config'', JStr ''{}'')]"
  have hyps: "contains_key ?event ''eoj_name''"
    "map_of ?event ''eoj_input_config'' = Some (JStr ''collection'')"
    "\<not> str_in ''RasterDataCollectionQuery'' (py_str (example_services ''IN_PROGRESS'') (JStr ''collection''))"
    "\<not> str_in ''arn'' (py_str (example_services ''IN_PROGRESS'') (JStr ''collection''))"
    by (simp_all add: contains_key_def py_str_def)
  have client: "create_client (example_services ''IN_PROGRESS'') (region_of ?event) = Inr ()"
    by (simp add: region_of_def contains_key_def example_services_def example_client_def)
  from lambda_handler_input_config_unassigned[OF hyps] client
  show ?thesis by (simp add: contains_key_def)
qed

text \<open>
  The claim as it is worded fails: without the key \<open>role\<close> the handler fails with a
  \<open>KeyError\<close>, not with the \<open>NameError\<close>; and with a region name that is not
  well-formed it fails, before it reaches the branch, with what the creation of the client
  raises.
\<close>

theorem lambda_handler_input_config_unassigned_counterexample:
  "\<not> str_in ''RasterDataCollectionQuery'' (py_str (example_services ''IN_PROGRESS'') (JStr ''collection'')) \<and>
   \<not> str_in ''arn'' (py_str (example_services ''IN_PROGRESS'') (JStr ''collection'')) \<and>
   lambda_handler (example_services ''IN_PROGRESS'')
     [(''eoj_name'', JStr ''job''), (''eoj_input_config'', JStr ''collection'')] =
     ([], Inl (KeyError ''role'')) \<and>
   lambda_handler (example_services ''IN_PROGRESS'')
     [(''eoj_name'', JStr ''job''), (''role'', JStr ''r''), (''region'', JStr ''not a region!''),
      (''eoj_input_config'', JStr ''collection'')] =
     ([], Inl (InvalidRegionError ''not a region!''))"
  by (simp add: lambda_handler_def contains_key_def create_eoj_def input_config_of_def py_str_def
      except_client_error_def subscript_def region_of_def example_services_def
      example_client_def)


end
